theory Spec2Isabelle
  imports Complex_Main "HOL-Library.Word" "HOL-Library.Log_Nat"
begin

section \<open>JavaScript values used by the tamper-detection engine\<close>

text \<open>
  The engine lives in \<^verbatim>\<open>src/utils/imageAnalysis.ts\<close>. Its numbers are JavaScript
  numbers. Loop counters, coordinates and array lengths are integers there and are
  modelled as \<open>int\<close> and \<open>nat\<close>. Every other number is a \<open>jsval\<close>:
  a real number, \<open>NaN\<close>, or \<open>Undefined\<close> (what reading an array past its end
  gives). Arithmetic on \<open>Num\<close> is exact; the one computation whose claimed value
  depends on binary64 rounding is evaluated once more with the rounding written out
  (\<open>calculateOverallConfidence_binary64\<close>).
\<close>

datatype jsval = Num real | NaN | Undefined

fun js_add :: "jsval \<Rightarrow> jsval \<Rightarrow> jsval" where
  "js_add (Num a) (Num b) = Num (a + b)"
| "js_add _ _ = NaN"

fun js_sub :: "jsval \<Rightarrow> jsval \<Rightarrow> jsval" where
  "js_sub (Num a) (Num b) = Num (a - b)"
| "js_sub _ _ = NaN"

fun js_mul :: "jsval \<Rightarrow> jsval \<Rightarrow> jsval" where
  "js_mul (Num a) (Num b) = Num (a * b)"
| "js_mul _ _ = NaN"

text \<open>
  Division: \<open>0 / 0\<close> is \<open>NaN\<close>. A non-zero number divided by zero would be an
  infinity, which \<open>jsval\<close> does not have; every divisor of the program is a non-zero
  constant or a count that is zero only when the dividend is zero too, so that case
  does not arise and is mapped to \<open>NaN\<close> as well.
\<close>

fun js_div :: "jsval \<Rightarrow> jsval \<Rightarrow> jsval" where
  "js_div (Num a) (Num b) = (if b = 0 then NaN else Num (a / b))"
| "js_div _ _ = NaN"

fun js_abs :: "jsval \<Rightarrow> jsval" where
  "js_abs (Num a) = Num \<bar>a\<bar>"
| "js_abs _ = NaN"

fun js_min :: "jsval \<Rightarrow> jsval \<Rightarrow> jsval" where
  "js_min (Num a) (Num b) = Num (min a b)"
| "js_min _ _ = NaN"

fun js_max :: "jsval \<Rightarrow> jsval \<Rightarrow> jsval" where
  "js_max (Num a) (Num b) = Num (max a b)"
| "js_max _ _ = NaN"

text \<open>A comparison with \<open>NaN\<close> or \<open>undefined\<close> is false.\<close>

fun js_gt :: "jsval \<Rightarrow> jsval \<Rightarrow> bool" where
  "js_gt (Num a) (Num b) = (a > b)"
| "js_gt _ _ = False"

fun js_lt :: "jsval \<Rightarrow> jsval \<Rightarrow> bool" where
  "js_lt (Num a) (Num b) = (a < b)"
| "js_lt _ _ = False"

section \<open>Data model\<close>

text \<open>
  \<^verbatim>\<open>interface Region { x; y; width; height; confidence }\<close>. The fields carry the
  prefix \<open>reg_\<close>: a record field is a constant, and \<open>x\<close> and \<open>y\<close> are wanted as
  variables.
\<close>

record region =
  reg_x :: int
  reg_y :: int
  reg_width :: int
  reg_height :: int
  reg_confidence :: jsval

text \<open>The two detectors' results, as the object literals they return.\<close>

record ela_result =
  ela_regions :: "region list"
  heatmap :: "jsval list list"

record copymove_result =
  cm_regions :: "region list"
  cm_confidence :: jsval

text \<open>
  The \<^verbatim>\<open>metadata\<close> argument of \<^verbatim>\<open>calculateOverallConfidence\<close>, as the caller in
  \<^verbatim>\<open>App.tsx\<close> builds it: \<^verbatim>\<open>{ exifData, warnings }\<close>. \<open>exifData\<close> is the parsed tag
  object or \<^verbatim>\<open>undefined\<close> (\<open>None\<close>); \<open>warnings\<close> is a list of strings.
\<close>

type_synonym exif = "(string \<times> string) list"

record metadata =
  exifData :: "exif option"
  warnings :: "string list"

section \<open>calculateOverallConfidence\<close>

text \<open>\<^verbatim>\<open>regions.reduce((sum, r) => sum + r.confidence, 0)\<close>\<close>

definition sum_confidence :: "region list \<Rightarrow> jsval" where
  "sum_confidence regions = foldl (\<lambda>s r. js_add s (reg_confidence r)) (Num 0) regions"

text \<open>
  The metadata factor (lines 205 to 207): 1, times 0.7 when \<open>exifData\<close> is missing,
  times \<open>1 - warnings.length * 0.1\<close> when there is a warning.
\<close>

definition metadataConfidence :: "metadata \<Rightarrow> jsval" where
  "metadataConfidence md =
     (let mc = Num 1;
          mc = (if exifData md = None then js_mul mc (Num (7 / 10)) else mc);
          mc = (if length (warnings md) > 0
                then js_mul mc (js_sub (Num 1)
                       (js_mul (Num (real (length (warnings md)))) (Num (1 / 10))))
                else mc)
      in mc)"

text \<open>
  Lines 188 to 210: the running sum \<open>confidence\<close> and the count \<open>factors\<close> after the
  three blocks. The \<^verbatim>\<open>metadata\<close> parameter is \<^verbatim>\<open>any\<close> and is tested for truthiness,
  so it is an option here (\<open>None\<close> for \<^verbatim>\<open>null\<close> or \<^verbatim>\<open>undefined\<close>).
\<close>

definition confidence_factors ::
  "ela_result \<Rightarrow> copymove_result \<Rightarrow> metadata option \<Rightarrow> jsval \<times> nat" where
  "confidence_factors elaResults copyMoveResults md =
     (let (confidence, factors) = (Num 0, 0 :: nat);
          (confidence, factors) =
            (if length (ela_regions elaResults) > 0
             then (js_add confidence
                     (js_div (sum_confidence (ela_regions elaResults))
                        (Num (real (length (ela_regions elaResults))))),
                   factors + 1)
             else (confidence, factors));
          (confidence, factors) =
            (if js_gt (cm_confidence copyMoveResults) (Num 0)
             then (js_add confidence (cm_confidence copyMoveResults), factors + 1)
             else (confidence, factors));
          (confidence, factors) =
            (case md of
               None \<Rightarrow> (confidence, factors)
             | Some m \<Rightarrow> (js_add confidence (metadataConfidence m), factors + 1))
      in (confidence, factors))"

text \<open>Line 212: \<^verbatim>\<open>factors > 0 ? (confidence / factors) * 100 : 0\<close>\<close>

definition calculateOverallConfidence ::
  "ela_result \<Rightarrow> copymove_result \<Rightarrow> metadata option \<Rightarrow> jsval" where
  "calculateOverallConfidence elaResults copyMoveResults md =
     (let (confidence, factors) = confidence_factors elaResults copyMoveResults md
      in if factors > 0
         then js_mul (js_div confidence (Num (real factors))) (Num 100)
         else Num 0)"

section \<open>Pixel buffers and the canvas\<close>

text \<open>
  \<^verbatim>\<open>ImageData\<close>: \<open>width\<close>, \<open>height\<close> and \<open>data\<close>, a \<^verbatim>\<open>Uint8ClampedArray\<close> of
  RGBA samples in row-major order. The fields carry the prefix \<open>img_\<close>.
\<close>

type_synonym byte = "8 word"

record imagedata =
  img_width :: nat
  img_height :: nat
  img_data :: "byte list"

text \<open>
  \<^verbatim>\<open>a[i]\<close> on a \<^verbatim>\<open>Uint8ClampedArray\<close>, read as a number: the sample, or
  \<^verbatim>\<open>undefined\<close> when \<open>i\<close> is not an index of the array.
\<close>

definition sample :: "byte list \<Rightarrow> int \<Rightarrow> jsval" where
  "sample a i = (if 0 \<le> i \<and> i < int (length a) then Num (real (unat (a ! nat i))) else Undefined)"

text \<open>
  \<^verbatim>\<open>blockData[k] = imageData.data[i]\<close>: the byte such an assignment stores. Storing
  \<^verbatim>\<open>undefined\<close> in a \<^verbatim>\<open>Uint8ClampedArray\<close> stores 0.
\<close>

definition data_byte :: "byte list \<Rightarrow> int \<Rightarrow> byte" where
  "data_byte a i = (if 0 \<le> i \<and> i < int (length a) then a ! nat i else 0)"

text \<open>
  An \<^verbatim>\<open>async\<close> function returns a promise: \<open>Inr\<close> is the value it is fulfilled
  with, \<open>Inl\<close> the reason it is rejected with. \<^verbatim>\<open>createImageFromDataUrl\<close> rejects
  when the image fails to load (\<^verbatim>\<open>img.onerror = reject\<close>); \<^verbatim>\<open>getImageData\<close> throws
  an \<^verbatim>\<open>IndexSizeError\<close> for a rectangle without pixels; an assignment through
  \<^verbatim>\<open>undefined\<close> throws a \<^verbatim>\<open>TypeError\<close>.
\<close>

datatype error = ImageLoadError | IndexSizeError | TypeError

text \<open>
  What \<^verbatim>\<open>performErrorLevelAnalysis\<close> asks of the browser, lines 18 to 37, taken as a
  parameter: from \<^verbatim>\<open>imageData\<close> and \<^verbatim>\<open>quality\<close>, the samples \<^verbatim>\<open>originalData\<close> read
  back from the canvas the image was put on and the samples \<^verbatim>\<open>compressedData\<close> of
  its JPEG round trip (\<^verbatim>\<open>toDataURL\<close>, \<^verbatim>\<open>createImageFromDataUrl\<close>, \<^verbatim>\<open>drawImage\<close>,
  \<^verbatim>\<open>getImageData\<close>), or the error one of these calls ends with.
\<close>

type_synonym canvas = "imagedata \<Rightarrow> real \<Rightarrow> error + byte list \<times> byte list"

section \<open>performErrorLevelAnalysis\<close>

text \<open>
  Lines 52 to 55: the difference of one pixel, \<open>idx\<close> being the index of its red
  sample.
\<close>

definition pixel_diff :: "byte list \<Rightarrow> byte list \<Rightarrow> int \<Rightarrow> jsval" where
  "pixel_diff originalData compressedData idx =
     js_add
       (js_add
          (js_abs (js_sub (sample originalData idx) (sample compressedData idx)))
          (js_abs (js_sub (sample originalData (idx + 1)) (sample compressedData (idx + 1)))))
       (js_abs (js_sub (sample originalData (idx + 2)) (sample compressedData (idx + 2))))"

text \<open>
  Lines 50 to 59, the two pixel loops of a cell, on the state
  \<open>(diffSum, pixelCount)\<close>. The source's counters \<^verbatim>\<open>by\<close> and \<^verbatim>\<open>bx\<close> are \<open>b_y\<close> and
  \<open>b_x\<close> here; \<open>w\<close> and \<open>h\<close> are \<^verbatim>\<open>canvas.width\<close> and \<^verbatim>\<open>canvas.height\<close>; the block
  size is the constant 16 of line 39.
\<close>

function ela_bx_loop ::
  "int \<Rightarrow> byte list \<Rightarrow> byte list \<Rightarrow> int \<Rightarrow> int \<Rightarrow> int \<Rightarrow> int \<Rightarrow> jsval \<times> nat \<Rightarrow> jsval \<times> nat" where
  "ela_bx_loop w originalData compressedData x y b_y b_x (diffSum, pixelCount) =
     (if b_x < 16 \<and> x + b_x < w
      then ela_bx_loop w originalData compressedData x y b_y (b_x + 1)
             (js_add diffSum
                (pixel_diff originalData compressedData (((y + b_y) * w + (x + b_x)) * 4)),
              pixelCount + 1)
      else (diffSum, pixelCount))"
  by pat_completeness auto
termination
  by (relation "measure (\<lambda>(w, od, cd, x, y, b_y, b_x, s). nat (16 - b_x))") auto

function ela_by_loop ::
  "int \<Rightarrow> int \<Rightarrow> byte list \<Rightarrow> byte list \<Rightarrow> int \<Rightarrow> int \<Rightarrow> int \<Rightarrow> jsval \<times> nat \<Rightarrow> jsval \<times> nat" where
  "ela_by_loop w h originalData compressedData x y b_y st =
     (if b_y < 16 \<and> y + b_y < h
      then ela_by_loop w h originalData compressedData x y (b_y + 1)
             (ela_bx_loop w originalData compressedData x y b_y 0 st)
      else st)"
  by pat_completeness auto
termination
  by (relation "measure (\<lambda>(w, h, od, cd, x, y, b_y, s). nat (16 - b_y))") auto

text \<open>Lines 47 to 62: \<^verbatim>\<open>normalizedDiff\<close> of the cell at \<open>(x, y)\<close>.\<close>

definition ela_cell :: "int \<Rightarrow> int \<Rightarrow> byte list \<Rightarrow> byte list \<Rightarrow> int \<Rightarrow> int \<Rightarrow> jsval" where
  "ela_cell w h originalData compressedData x y =
     (let (diffSum, pixelCount) = ela_by_loop w h originalData compressedData x y 0 (Num 0, 0);
          avgDiff = js_div diffSum (Num (real (pixelCount * 3)));
          normalizedDiff = js_min (js_div avgDiff (Num 30)) (Num 1)
      in normalizedDiff)"

text \<open>
  \<^verbatim>\<open>row[c] = v\<close> on a JavaScript array: an index past the end extends the array,
  the gap reading as \<^verbatim>\<open>undefined\<close>; a negative index sets a property and leaves the
  elements alone.
\<close>

definition array_set :: "jsval list \<Rightarrow> int \<Rightarrow> jsval \<Rightarrow> jsval list" where
  "array_set row c v =
     (if 0 \<le> c \<and> c < int (length row) then row[nat c := v]
      else if int (length row) \<le> c then row @ replicate (nat c - length row) Undefined @ [v]
      else row)"

text \<open>
  Line 64, \<^verbatim>\<open>heatmap[r][c] = v\<close>: when \<open>r\<close> is not an index of \<open>heatmap\<close>,
  \<^verbatim>\<open>heatmap[r]\<close> is \<^verbatim>\<open>undefined\<close> and the assignment throws.
\<close>

definition heatmap_store :: "jsval list list \<Rightarrow> int \<Rightarrow> int \<Rightarrow> jsval \<Rightarrow> error + jsval list list" where
  "heatmap_store hm r c v =
     (if 0 \<le> r \<and> r < int (length hm)
      then Inr (hm[nat r := array_set (hm ! nat r) c v])
      else Inl TypeError)"

text \<open>Lines 66 to 74: the region pushed for a cell whose difference exceeds 0.3.\<close>

definition ela_push :: "int \<Rightarrow> int \<Rightarrow> jsval \<Rightarrow> region list \<Rightarrow> region list" where
  "ela_push x y normalizedDiff regions =
     (if js_gt normalizedDiff (Num (3 / 10))
      then regions @ [\<lparr>reg_x = x, reg_y = y, reg_width = 16, reg_height = 16,
                       reg_confidence = normalizedDiff\<rparr>]
      else regions)"

text \<open>Lines 45 to 76: the loops over the cells, on the state \<open>(regions, heatmap)\<close>.\<close>

function ela_x_loop ::
  "int \<Rightarrow> int \<Rightarrow> byte list \<Rightarrow> byte list \<Rightarrow> int \<Rightarrow> int \<Rightarrow> region list \<times> jsval list list
     \<Rightarrow> error + region list \<times> jsval list list" where
  "ela_x_loop w h originalData compressedData y x (regions, hm) =
     (if x < w
      then (let normalizedDiff = ela_cell w h originalData compressedData x y
            in case heatmap_store hm \<lfloor>real_of_int y / 16\<rfloor> \<lfloor>real_of_int x / 16\<rfloor> normalizedDiff of
                 Inl e \<Rightarrow> Inl e
               | Inr hm' \<Rightarrow>
                   ela_x_loop w h originalData compressedData y (x + 16)
                     (ela_push x y normalizedDiff regions, hm'))
      else Inr (regions, hm))"
  by pat_completeness auto
termination
  by (relation "measure (\<lambda>(w, h, od, cd, y, x, s). nat (w - x))") auto

function ela_y_loop ::
  "int \<Rightarrow> int \<Rightarrow> byte list \<Rightarrow> byte list \<Rightarrow> int \<Rightarrow> region list \<times> jsval list list
     \<Rightarrow> error + region list \<times> jsval list list" where
  "ela_y_loop w h originalData compressedData y st =
     (if y < h
      then (case ela_x_loop w h originalData compressedData y 0 st of
              Inl e \<Rightarrow> Inl e
            | Inr st' \<Rightarrow> ela_y_loop w h originalData compressedData (y + 16) st')
      else Inr st)"
  by pat_completeness auto
termination
  by (relation "measure (\<lambda>(w, h, od, cd, y, s). nat (h - y))") auto

text \<open>
  Lines 39 to 78: the heatmap of \<open>ceil(height / 16)\<close> rows of \<open>ceil(width / 16)\<close>
  zeros, the loops, and the result.
\<close>

definition ela_blocks :: "nat \<Rightarrow> nat \<Rightarrow> byte list \<Rightarrow> byte list \<Rightarrow> error + ela_result" where
  "ela_blocks w h originalData compressedData =
     (let hm = replicate (nat \<lceil>real h / 16\<rceil>) (replicate (nat \<lceil>real w / 16\<rceil>) (Num 0))
      in case ela_y_loop (int w) (int h) originalData compressedData 0 ([], hm) of
           Inl e \<Rightarrow> Inl e
         | Inr (regions, hm') \<Rightarrow> Inr \<lparr>ela_regions = regions, heatmap = hm'\<rparr>)"

text \<open>
  The whole function. The canvas takes its size from \<^verbatim>\<open>imageData\<close> (lines 20, 21);
  \<open>quality\<close> is the second parameter, 0.95 when the caller leaves it out.
\<close>

definition performErrorLevelAnalysis :: "canvas \<Rightarrow> imagedata \<Rightarrow> real \<Rightarrow> error + ela_result" where
  "performErrorLevelAnalysis canvas imageData quality =
     (case canvas imageData quality of
        Inl e \<Rightarrow> Inl e
      | Inr (originalData, compressedData) \<Rightarrow>
          ela_blocks (img_width imageData) (img_height imageData) originalData compressedData)"

section \<open>detectCopyMove\<close>

text \<open>
  An element of \<^verbatim>\<open>blocks\<close>: \<^verbatim>\<open>{ data, x, y }\<close>, with the prefix \<open>blk_\<close>.
\<close>

record block =
  blk_data :: "byte list"
  blk_x :: int
  blk_y :: int

text \<open>
  Lines 95 to 103: the copy of one block, on the state \<open>(blockData, idx)\<close>. A
  \<^verbatim>\<open>Uint8ClampedArray\<close> has a fixed length and ignores a store past its end, as
  \<open>xs[i := v]\<close> does. The block size is the constant 32 of line 84.
\<close>

function copy_bx_loop ::
  "imagedata \<Rightarrow> int \<Rightarrow> int \<Rightarrow> int \<Rightarrow> int \<Rightarrow> byte list \<times> nat \<Rightarrow> byte list \<times> nat" where
  "copy_bx_loop imageData x y b_y b_x (blockData, idx) =
     (if b_x < 32
      then (let sourceIdx = ((y + b_y) * int (img_width imageData) + (x + b_x)) * 4
            in copy_bx_loop imageData x y b_y (b_x + 1)
                 (blockData
                    [idx := data_byte (img_data imageData) sourceIdx,
                     idx + 1 := data_byte (img_data imageData) (sourceIdx + 1),
                     idx + 2 := data_byte (img_data imageData) (sourceIdx + 2),
                     idx + 3 := data_byte (img_data imageData) (sourceIdx + 3)],
                  idx + 4))
      else (blockData, idx))"
  by pat_completeness auto
termination
  by (relation "measure (\<lambda>(img, x, y, b_y, b_x, s). nat (32 - b_x))") auto

function copy_by_loop ::
  "imagedata \<Rightarrow> int \<Rightarrow> int \<Rightarrow> int \<Rightarrow> byte list \<times> nat \<Rightarrow> byte list \<times> nat" where
  "copy_by_loop imageData x y b_y st =
     (if b_y < 32
      then copy_by_loop imageData x y (b_y + 1) (copy_bx_loop imageData x y b_y 0 st)
      else st)"
  by pat_completeness auto
termination
  by (relation "measure (\<lambda>(img, x, y, b_y, s). nat (32 - b_y))") auto

text \<open>Lines 92 to 105: the block pushed for the origin \<open>(x, y)\<close>.\<close>

definition extract_block :: "imagedata \<Rightarrow> int \<Rightarrow> int \<Rightarrow> block" where
  "extract_block imageData x y =
     (let (blockData, idx) = copy_by_loop imageData x y 0 (replicate (32 * 32 * 4) 0, 0)
      in \<lparr>blk_data = blockData, blk_x = x, blk_y = y\<rparr>)"

text \<open>
  Lines 90 to 107: the loops over the origins, with the bounds as written,
  \<^verbatim>\<open>y < imageData.height - blockSize\<close> and \<^verbatim>\<open>x < imageData.width - blockSize\<close>.
\<close>

function extract_x_loop :: "imagedata \<Rightarrow> int \<Rightarrow> int \<Rightarrow> block list \<Rightarrow> block list" where
  "extract_x_loop imageData y x blocks =
     (if x < int (img_width imageData) - 32
      then extract_x_loop imageData y (x + 32) (blocks @ [extract_block imageData x y])
      else blocks)"
  by pat_completeness auto
termination
  by (relation "measure (\<lambda>(img, y, x, bs). nat (int (img_width img) - 32 - x))") auto

function extract_y_loop :: "imagedata \<Rightarrow> int \<Rightarrow> block list \<Rightarrow> block list" where
  "extract_y_loop imageData y blocks =
     (if y < int (img_height imageData) - 32
      then extract_y_loop imageData (y + 32) (extract_x_loop imageData y 0 blocks)
      else blocks)"
  by pat_completeness auto
termination
  by (relation "measure (\<lambda>(img, y, bs). nat (int (img_height img) - 32 - y))") auto

text \<open>
  The loop of \<^verbatim>\<open>areBlocksSimilar\<close> (lines 151 to 156) and, word for word, of
  \<^verbatim>\<open>calculateSimilarityConfidence\<close> (lines 164 to 169).
\<close>

function diff_loop :: "byte list \<Rightarrow> byte list \<Rightarrow> int \<Rightarrow> jsval \<Rightarrow> jsval" where
  "diff_loop block1 block2 i diffSum =
     (if i < int (length block1)
      then diff_loop block1 block2 (i + 4)
             (js_add diffSum
                (js_add
                   (js_add
                      (js_abs (js_sub (sample block1 i) (sample block2 i)))
                      (js_abs (js_sub (sample block1 (i + 1)) (sample block2 (i + 1)))))
                   (js_abs (js_sub (sample block1 (i + 2)) (sample block2 (i + 2))))))
      else diffSum)"
  by pat_completeness auto
termination
  by (relation "measure (\<lambda>(b1, b2, i, s). nat (int (length b1) - i))") auto

definition areBlocksSimilar :: "byte list \<Rightarrow> byte list \<Rightarrow> real \<Rightarrow> bool" where
  "areBlocksSimilar block1 block2 threshold =
     (let diffSum = diff_loop block1 block2 0 (Num 0)
      in js_lt (js_div diffSum (js_div (Num (real (length block1))) (Num 4))) (Num threshold))"

definition calculateSimilarityConfidence :: "byte list \<Rightarrow> byte list \<Rightarrow> jsval" where
  "calculateSimilarityConfidence block1 block2 =
     (let diffSum = diff_loop block1 block2 0 (Num 0);
          avgDiff = js_div diffSum (js_div (Num (real (length block1))) (Num 4))
      in js_max (Num 0) (js_sub (Num 1) (js_div avgDiff (Num 255))))"

text \<open>
  Lines 112 to 135, the body of the comparison loops for the blocks \<open>bi\<close> and \<open>bj\<close>
  (\<^verbatim>\<open>blocks[i]\<close> and \<^verbatim>\<open>blocks[j]\<close>), with \<^verbatim>\<open>threshold = 5\<close> and
  \<^verbatim>\<open>blockSize * 2 = 64\<close>. The coordinates are integers, so the squares and their sum
  are exact.
\<close>

definition block_distance :: "block \<Rightarrow> block \<Rightarrow> real" where
  "block_distance bi bj =
     sqrt (real_of_int ((blk_x bi - blk_x bj)\<^sup>2 + (blk_y bi - blk_y bj)\<^sup>2))"

definition compare_pair :: "block \<Rightarrow> block \<Rightarrow> region list \<Rightarrow> region list" where
  "compare_pair bi bj regions =
     (if areBlocksSimilar (blk_data bi) (blk_data bj) 5
      then (let distance = block_distance bi bj
            in if distance > 32 * 2
               then (let confidence = calculateSimilarityConfidence (blk_data bi) (blk_data bj)
                     in regions @
                        [\<lparr>reg_x = blk_x bi, reg_y = blk_y bi, reg_width = 32, reg_height = 32,
                          reg_confidence = confidence\<rparr>,
                         \<lparr>reg_x = blk_x bj, reg_y = blk_y bj, reg_width = 32, reg_height = 32,
                          reg_confidence = confidence\<rparr>])
               else regions)
      else regions)"

text \<open>
  Lines 110 to 137. The inner loop is entered with \<open>i < length blocks\<close> only, so
  \<open>blocks ! i\<close> and \<open>blocks ! j\<close> are elements of the list.
\<close>

function compare_j_loop :: "block list \<Rightarrow> nat \<Rightarrow> nat \<Rightarrow> region list \<Rightarrow> region list" where
  "compare_j_loop blocks i j regions =
     (if j < length blocks
      then compare_j_loop blocks i (j + 1) (compare_pair (blocks ! i) (blocks ! j) regions)
      else regions)"
  by pat_completeness auto
termination
  by (relation "measure (\<lambda>(bs, i, j, rs). length bs - j)") auto

function compare_i_loop :: "block list \<Rightarrow> nat \<Rightarrow> region list \<Rightarrow> region list" where
  "compare_i_loop blocks i regions =
     (if i < length blocks
      then compare_i_loop blocks (i + 1) (compare_j_loop blocks i (i + 1) regions)
      else regions)"
  by pat_completeness auto
termination
  by (relation "measure (\<lambda>(bs, i, rs). length bs - i)") auto

text \<open>Lines 139 to 141.\<close>

definition overallConfidence :: "region list \<Rightarrow> jsval" where
  "overallConfidence regions =
     (if length regions > 0
      then js_div (sum_confidence regions) (Num (real (length regions)))
      else Num 0)"

text \<open>
  The whole function. It awaits nothing and throws nowhere: its promise is always
  fulfilled.
\<close>

definition detectCopyMove :: "imagedata \<Rightarrow> error + copymove_result" where
  "detectCopyMove imageData =
     (let blocks = extract_y_loop imageData 0 [];
          regions = compare_i_loop blocks 0 []
      in Inr \<lparr>cm_regions = regions, cm_confidence = overallConfidence regions\<rparr>)"

text \<open>The loops unfold by their equations only where a proof asks for it.\<close>

declare ela_bx_loop.simps [simp del] ela_by_loop.simps [simp del]
  ela_x_loop.simps [simp del] ela_y_loop.simps [simp del]
  copy_bx_loop.simps [simp del] copy_by_loop.simps [simp del]
  extract_x_loop.simps [simp del] extract_y_loop.simps [simp del]
  diff_loop.simps [simp del] compare_j_loop.simps [simp del] compare_i_loop.simps [simp del]

section \<open>Predicates of the specification\<close>

text \<open>A confidence in \<open>[0, 1]\<close>, and an aggregate score in \<open>[0, 100]\<close>.\<close>

definition in_unit :: "jsval \<Rightarrow> bool" where
  "in_unit v = (case v of Num r \<Rightarrow> 0 \<le> r \<and> r \<le> 1 | _ \<Rightarrow> False)"

definition in_percent :: "jsval \<Rightarrow> bool" where
  "in_percent v = (case v of Num r \<Rightarrow> 0 \<le> r \<and> r \<le> 100 | _ \<Rightarrow> False)"

text \<open>A number above \<open>1 - threshold / 255 = 250 / 255\<close>.\<close>

definition above_similarity_floor :: "jsval \<Rightarrow> bool" where
  "above_similarity_floor v = (case v of Num r \<Rightarrow> 250 / 255 < r | _ \<Rightarrow> False)"

text \<open>
  The region lies in the buffer of \<open>W\<close> by \<open>H\<close> pixels:
  \<open>0 \<le> x\<close>, \<open>0 \<le> y\<close>, \<open>x + width \<le> W\<close>, \<open>y + height \<le> H\<close>.
\<close>

definition within_buffer :: "nat \<Rightarrow> nat \<Rightarrow> region \<Rightarrow> bool" where
  "within_buffer W H r =
     (0 \<le> reg_x r \<and> 0 \<le> reg_y r \<and>
      reg_x r + reg_width r \<le> int W \<and> reg_y r + reg_height r \<le> int H)"

text \<open>
  What holds of a region of the error-level analysis instead: it is a whole cell of
  the 16-pixel grid whose origin lies in the buffer, so it lies in the buffer padded to
  \<open>ceil(W / 16)\<close> by \<open>ceil(H / 16)\<close> cells.
\<close>

definition within_padded_buffer :: "nat \<Rightarrow> nat \<Rightarrow> region \<Rightarrow> bool" where
  "within_padded_buffer W H r =
     (0 \<le> reg_x r \<and> reg_x r < int W \<and> 0 \<le> reg_y r \<and> reg_y r < int H \<and>
      reg_width r = 16 \<and> reg_height r = 16 \<and>
      reg_x r + reg_width r \<le> 16 * \<lceil>real W / 16\<rceil> \<and>
      reg_y r + reg_height r \<le> 16 * \<lceil>real H / 16\<rceil>)"

text \<open>
  The pairs of the specification, section 4.2 step 2: every pair \<open>(i, j)\<close> of block
  indices with \<open>i < j\<close>, in the order of the loops of lines 110 and 111. A comparison
  step is the body of those loops for one pair.
\<close>

definition compared_pairs :: "nat \<Rightarrow> (nat \<times> nat) list" where
  "compared_pairs n = concat (map (\<lambda>i. map (\<lambda>j. (i, j)) [i + 1..<n]) [0..<n])"

definition compare_step :: "block list \<Rightarrow> region list \<Rightarrow> nat \<times> nat \<Rightarrow> region list" where
  "compare_step blocks regions p = compare_pair (blocks ! fst p) (blocks ! snd p) regions"

text \<open>The origins of the extracted blocks, in the order of extraction.\<close>

definition block_origins :: "imagedata \<Rightarrow> (int \<times> int) list" where
  "block_origins imageData = map (\<lambda>b. (blk_x b, blk_y b)) (extract_y_loop imageData 0 [])"

text \<open>
  The grid of the specification, section 4.2 step 1: the origins \<open>(32 i, 32 j)\<close> whose
  block of 32 by 32 pixels fits in the image, \<open>32 i + 32 \<le> W\<close> and \<open>32 j + 32 \<le> H\<close>,
  row by row.
\<close>

definition fitting_origins :: "nat \<Rightarrow> nat \<Rightarrow> (int \<times> int) list" where
  "fitting_origins W H =
     concat (map (\<lambda>j. map (\<lambda>i. (32 * int i, 32 * int j)) [0..<W div 32]) [0..<H div 32])"

section \<open>Loop invariants\<close>

text \<open>A sum of absolute differences: a non-negative number, or \<open>NaN\<close>.\<close>

definition nonneg_or_nan :: "jsval \<Rightarrow> bool" where
  "nonneg_or_nan v = (case v of Num r \<Rightarrow> 0 \<le> r | NaN \<Rightarrow> True | Undefined \<Rightarrow> False)"

text \<open>The heatmap has \<open>rows\<close> rows of \<open>cols\<close> cells.\<close>

definition hm_dims :: "nat \<Rightarrow> nat \<Rightarrow> jsval list list \<Rightarrow> bool" where
  "hm_dims rows cols hm = (length hm = rows \<and> (\<forall>row\<in>set hm. length row = cols))"

text \<open>
  A region of the error-level analysis: a cell of the 16-pixel grid with its origin
  in the image, and a confidence above the threshold 0.3 and at most 1.
\<close>

definition ela_region_ok :: "int \<Rightarrow> int \<Rightarrow> region \<Rightarrow> bool" where
  "ela_region_ok w h r =
     (0 \<le> reg_x r \<and> reg_x r < w \<and> 16 dvd reg_x r \<and>
      0 \<le> reg_y r \<and> reg_y r < h \<and> 16 dvd reg_y r \<and>
      reg_width r = 16 \<and> reg_height r = 16 \<and>
      (\<exists>c. reg_confidence r = Num c \<and> 3 / 10 < c \<and> c \<le> 1))"

text \<open>
  An extracted block: 4096 samples, and an origin that leaves the block strictly
  inside the image, as the loop bounds of lines 90 and 91 have it.
\<close>

definition block_ok :: "nat \<Rightarrow> nat \<Rightarrow> block \<Rightarrow> bool" where
  "block_ok W H b =
     (0 \<le> blk_x b \<and> blk_x b + 32 < int W \<and> 0 \<le> blk_y b \<and> blk_y b + 32 < int H \<and>
      length (blk_data b) = 4096)"

text \<open>A region of the copy-move detector: the place of such a block.\<close>

definition cm_region_ok :: "nat \<Rightarrow> nat \<Rightarrow> region \<Rightarrow> bool" where
  "cm_region_ok W H r =
     (0 \<le> reg_x r \<and> reg_x r + reg_width r < int W \<and>
      0 \<le> reg_y r \<and> reg_y r + reg_height r < int H \<and>
      reg_width r = 32 \<and> reg_height r = 32 \<and>
      (\<exists>c. reg_confidence r = Num c \<and> 250 / 255 < c \<and> c \<le> 1))"

section \<open>Example inputs\<close>

text \<open>An image of \<open>W\<close> by \<open>H\<close> pixels, each the four samples \<open>px\<close>.\<close>

definition uniform_image :: "nat \<Rightarrow> nat \<Rightarrow> byte list \<Rightarrow> imagedata" where
  "uniform_image W H px =
     \<lparr>img_width = W, img_height = H, img_data = concat (replicate (W * H) px)\<rparr>"

text \<open>
  A canvas that reads back the samples it was given and whose JPEG round trip yields
  the samples \<open>compressedData\<close>; and one whose round trip is lossless.
\<close>

definition fixed_canvas :: "byte list \<Rightarrow> canvas" where
  "fixed_canvas compressedData = (\<lambda>imageData quality. Inr (img_data imageData, compressedData))"

definition lossless_canvas :: canvas where
  "lossless_canvas = (\<lambda>imageData quality. Inr (img_data imageData, img_data imageData))"

text \<open>
  One half-transparent grey pixel. JPEG has no alpha channel: the canvas serialises
  the pixel composited on black, here as the grey 100.
\<close>

definition translucent_pixel :: imagedata where
  "translucent_pixel = \<lparr>img_width = 1, img_height = 1, img_data = [200, 200, 200, 128]\<rparr>"

definition translucent_pixel_jpeg :: "byte list" where
  "translucent_pixel_jpeg = [100, 100, 100, 255]"

text \<open>The inputs of the aggregator with no signal from either detector.\<close>

definition no_ela_regions :: ela_result where
  "no_ela_regions = \<lparr>ela_regions = [], heatmap = []\<rparr>"

definition no_copy_move :: copymove_result where
  "no_copy_move = \<lparr>cm_regions = [], cm_confidence = Num 0\<rparr>"

section \<open>Binary64 arithmetic\<close>

text \<open>
  JavaScript numbers are IEEE 754 binary64 values, and every arithmetic operation
  rounds its exact result to the nearest one, ties to even. \<open>round_double\<close> is that
  rounding on the reals: the result is a multiple of \<open>2 ^ (e - 52)\<close>, where
  \<open>2 ^ e \<le> |x| < 2 ^ (e + 1)\<close> and \<open>e\<close> is at least \<open>- 1022\<close> (the subnormal range).
  Overflow to infinity (from \<open>2 ^ 1024\<close> on) is left out: \<open>jsval\<close> has no
  infinity, and the values below stay under 100.
\<close>

definition ilog2 :: "real \<Rightarrow> int" where
  "ilog2 x = (if 1 \<le> x then bitlen \<lfloor>x\<rfloor> - 1 else - bitlen (\<lceil>1 / x\<rceil> - 1))"

definition round_half_even :: "real \<Rightarrow> int" where
  "round_half_even x =
     (let f = \<lfloor>x\<rfloor>; d = x - of_int f
      in if d < 1 / 2 then f else if 1 / 2 < d then f + 1 else if even f then f else f + 1)"

definition round_double :: "real \<Rightarrow> real" where
  "round_double x =
     (if x = 0 then 0
      else let e = max (ilog2 \<bar>x\<bar>) (- 1022); q = e - 52
           in of_int (round_half_even (x / 2 powi q)) * 2 powi q)"

fun fl :: "jsval \<Rightarrow> jsval" where
  "fl (Num x) = Num (round_double x)"
| "fl v = v"

text \<open>
  \<^verbatim>\<open>calculateOverallConfidence\<close> once more, every operation rounded. The literals
  \<^verbatim>\<open>0.7\<close> and \<^verbatim>\<open>0.1\<close> are the doubles nearest to \<open>7 / 10\<close> and \<open>1 / 10\<close>; the
  lengths and the literals 0, 1 and 100 are doubles as they stand.
\<close>

definition sum_confidence_binary64 :: "region list \<Rightarrow> jsval" where
  "sum_confidence_binary64 regions =
     foldl (\<lambda>s r. fl (js_add s (reg_confidence r))) (Num 0) regions"

definition metadataConfidence_binary64 :: "metadata \<Rightarrow> jsval" where
  "metadataConfidence_binary64 md =
     (let mc = Num 1;
          mc = (if exifData md = None then fl (js_mul mc (Num (round_double (7 / 10)))) else mc);
          mc = (if length (warnings md) > 0
                then fl (js_mul mc (fl (js_sub (Num 1)
                       (fl (js_mul (Num (real (length (warnings md))))
                              (Num (round_double (1 / 10))))))))
                else mc)
      in mc)"

definition confidence_factors_binary64 ::
  "ela_result \<Rightarrow> copymove_result \<Rightarrow> metadata option \<Rightarrow> jsval \<times> nat" where
  "confidence_factors_binary64 elaResults copyMoveResults md =
     (let (confidence, factors) = (Num 0, 0 :: nat);
          (confidence, factors) =
            (if length (ela_regions elaResults) > 0
             then (fl (js_add confidence
                     (fl (js_div (sum_confidence_binary64 (ela_regions elaResults))
                        (Num (real (length (ela_regions elaResults))))))),
                   factors + 1)
             else (confidence, factors));
          (confidence, factors) =
            (if js_gt (cm_confidence copyMoveResults) (Num 0)
             then (fl (js_add confidence (cm_confidence copyMoveResults)), factors + 1)
             else (confidence, factors));
          (confidence, factors) =
            (case md of
               None \<Rightarrow> (confidence, factors)
             | Some m \<Rightarrow> (fl (js_add confidence (metadataConfidence_binary64 m)), factors + 1))
      in (confidence, factors))"

definition calculateOverallConfidence_binary64 ::
  "ela_result \<Rightarrow> copymove_result \<Rightarrow> metadata option \<Rightarrow> jsval" where
  "calculateOverallConfidence_binary64 elaResults copyMoveResults md =
     (let (confidence, factors) = confidence_factors_binary64 elaResults copyMoveResults md
      in if factors > 0
         then fl (js_mul (fl (js_div confidence (Num (real factors)))) (Num 100))
         else Num 0)"

section \<open>The aggregate confidence\<close>

lemma foldl_confidence_bounds:
  assumes "\<forall>r\<in>set rs. \<exists>c. reg_confidence r = Num c \<and> lo \<le> c \<and> c \<le> hi"
  shows "\<exists>s. foldl (\<lambda>s r. js_add s (reg_confidence r)) (Num a) rs = Num s \<and>
           a + lo * real (length rs) \<le> s \<and> s \<le> a + hi * real (length rs)"
  using assms
proof (induction rs arbitrary: a)
  case Nil
  then show ?case by simp
next
  case (Cons r rs)
  from Cons.prems obtain c where c: "reg_confidence r = Num c" "lo \<le> c" "c \<le> hi"
    by auto
  from Cons.prems have "\<forall>r\<in>set rs. \<exists>c. reg_confidence r = Num c \<and> lo \<le> c \<and> c \<le> hi"
    by simp
  from Cons.IH [OF this, of "a + c"] obtain s where
    "foldl (\<lambda>s r. js_add s (reg_confidence r)) (Num (a + c)) rs = Num s"
    "a + c + lo * real (length rs) \<le> s" "s \<le> a + c + hi * real (length rs)"
    by blast
  with c show ?case by (auto simp: algebra_simps)
qed

lemma mean_confidence_bounds:
  assumes "rs \<noteq> []" "\<forall>r\<in>set rs. \<exists>c. reg_confidence r = Num c \<and> lo \<le> c \<and> c \<le> hi"
  shows "\<exists>v. js_div (sum_confidence rs) (Num (real (length rs))) = Num v \<and> lo \<le> v \<and> v \<le> hi"
proof -
  from foldl_confidence_bounds [OF assms(2), of 0] obtain s where
    s: "sum_confidence rs = Num s" "lo * real (length rs) \<le> s" "s \<le> hi * real (length rs)"
    by (auto simp: sum_confidence_def)
  from assms(1) have n: "0 < real (length rs)" by simp
  with s have "lo \<le> s / real (length rs)" "s / real (length rs) \<le> hi"
    by (simp_all add: le_divide_eq divide_le_eq)
  with s n show ?thesis by simp
qed

lemma in_unit_iff: "in_unit v = (\<exists>c. v = Num c \<and> 0 \<le> c \<and> c \<le> 1)"
  by (cases v) (simp_all add: in_unit_def)

lemma metadataConfidence_unit:
  assumes "length (warnings m) \<le> 10"
  shows "in_unit (metadataConfidence m)"
proof -
  let ?n = "real (length (warnings m))"
  from assms have n: "0 \<le> ?n" "?n \<le> 10" by simp_all
  then have a: "0 \<le> 1 - ?n * (1 / 10)" "1 - ?n * (1 / 10) \<le> 1" by simp_all
  have b: "0 \<le> 7 / 10 * (1 - ?n * (1 / 10))" using a by simp
  have c: "7 / 10 * (1 - ?n * (1 / 10)) \<le> 1" using a n by simp
  show ?thesis using a b c by (simp add: metadataConfidence_def in_unit_def Let_def)
qed

lemma confidence_factors_bounds:
  assumes "\<forall>r\<in>set (ela_regions e). in_unit (reg_confidence r)"
      and "in_unit (cm_confidence c)"
      and "\<forall>m. md = Some m \<longrightarrow> length (warnings m) \<le> 10"
  shows "\<exists>s. fst (confidence_factors e c md) = Num s \<and> 0 \<le> s \<and>
           s \<le> real (snd (confidence_factors e c md))"
proof -
  obtain cv where cv: "cm_confidence c = Num cv" "0 \<le> cv" "cv \<le> 1"
    using assms(2) by (auto simp: in_unit_iff)
  have e: "\<exists>v. js_div (sum_confidence (ela_regions e)) (Num (real (length (ela_regions e)))) = Num v \<and>
             0 \<le> v \<and> v \<le> 1" if "ela_regions e \<noteq> []"
    using mean_confidence_bounds [OF that, of 0 1] assms(1) by (simp add: in_unit_iff)
  have m: "\<exists>v. metadataConfidence m = Num v \<and> 0 \<le> v \<and> v \<le> 1" if "md = Some m" for m
    using that assms(3) metadataConfidence_unit [of m] by (simp add: in_unit_iff)
  show ?thesis
    using cv e m
    by (cases md; cases "ela_regions e = []"; cases "cv > 0")
       (auto simp: confidence_factors_def)
qed

text \<open>
  Claim C3, as stated: for every result of the two detectors and every metadata with
  a non-negative number of warnings, \<open>calculateOverallConfidence\<close> returns a value in
  \<open>[0, 100]\<close>. It fails: the factor \<open>1 - warnings.length * 0.1\<close> is negative from eleven
  warnings on, and nothing clamps it. With EXIF data present, eleven warnings and no
  signal from either detector the result is \<open>- 10\<close>.
\<close>

theorem overall_confidence_negative:
  "calculateOverallConfidence no_ela_regions no_copy_move
     (Some \<lparr>exifData = Some [], warnings = replicate 11 ''warning''\<rparr>) = Num (- 10)
   \<and> \<not> in_percent (calculateOverallConfidence no_ela_regions no_copy_move
         (Some \<lparr>exifData = Some [], warnings = replicate 11 ''warning''\<rparr>))"
  by (simp add: calculateOverallConfidence_def confidence_factors_def metadataConfidence_def
      no_ela_regions_def no_copy_move_def in_percent_def)

text \<open>
  Claim C3, amended: when every confidence of the error-level analysis and the
  copy-move confidence lie in \<open>[0, 1]\<close> and the metadata, if supplied, carries at
  most ten warnings, the value \<open>calculateOverallConfidence\<close> returns lies in
  \<open>[0, 100]\<close>.
\<close>

theorem overall_confidence_range:
  assumes "\<forall>r\<in>set (ela_regions elaResults). in_unit (reg_confidence r)"
      and "in_unit (cm_confidence copyMoveResults)"
      and "\<forall>m. md = Some m \<longrightarrow> length (warnings m) \<le> 10"
  shows "in_percent (calculateOverallConfidence elaResults copyMoveResults md)"
proof -
  from confidence_factors_bounds [OF assms] obtain s where
    s: "fst (confidence_factors elaResults copyMoveResults md) = Num s" "0 \<le> s"
       "s \<le> real (snd (confidence_factors elaResults copyMoveResults md))"
    by blast
  obtain cf f where cf: "confidence_factors elaResults copyMoveResults md = (cf, f)"
    by (cases "confidence_factors elaResults copyMoveResults md")
  show ?thesis
  proof (cases "f > 0")
    case True
    define q where "q = s / real f"
    from True s cf have "q \<le> 1" "0 \<le> q" by (simp_all add: q_def divide_le_eq)
    then have "q * 100 \<le> 100" "0 \<le> q * 100" by simp_all
    moreover from True s cf
    have "calculateOverallConfidence elaResults copyMoveResults md = Num (q * 100)"
      by (simp add: calculateOverallConfidence_def q_def)
    ultimately show ?thesis by (simp add: in_percent_def)
  next
    case False
    with cf show ?thesis by (simp add: calculateOverallConfidence_def in_percent_def)
  qed
qed

text \<open>
  The amended claim at an input with all three factors: one region of confidence
  \<open>1 / 2\<close>, copy-move confidence 1, no EXIF data and ten warnings. The factors are
  \<open>1 / 2\<close>, 1 and 0, and the score is 50.
\<close>

theorem overall_confidence_range_witness:
  "in_percent (calculateOverallConfidence
     \<lparr>ela_regions = [\<lparr>reg_x = 0, reg_y = 0, reg_width = 16, reg_height = 16,
                      reg_confidence = Num (1 / 2)\<rparr>], heatmap = [[Num (1 / 2)]]\<rparr>
     \<lparr>cm_regions = [], cm_confidence = Num 1\<rparr>
     (Some \<lparr>exifData = None, warnings = replicate 10 ''warning''\<rparr>))
   \<and> calculateOverallConfidence
     \<lparr>ela_regions = [\<lparr>reg_x = 0, reg_y = 0, reg_width = 16, reg_height = 16,
                      reg_confidence = Num (1 / 2)\<rparr>], heatmap = [[Num (1 / 2)]]\<rparr>
     \<lparr>cm_regions = [], cm_confidence = Num 1\<rparr>
     (Some \<lparr>exifData = None, warnings = replicate 10 ''warning''\<rparr>) = Num 50"
  using overall_confidence_range [of
     "\<lparr>ela_regions = [\<lparr>reg_x = 0, reg_y = 0, reg_width = 16, reg_height = 16,
                      reg_confidence = Num (1 / 2)\<rparr>], heatmap = [[Num (1 / 2)]]\<rparr>"
     "\<lparr>cm_regions = [], cm_confidence = Num 1\<rparr>"
     "Some \<lparr>exifData = None, warnings = replicate 10 ''warning''\<rparr>"]
  by (simp add: in_unit_def calculateOverallConfidence_def confidence_factors_def
      metadataConfidence_def sum_confidence_def)

text \<open>
  Claim C10: whenever the metadata argument is supplied, the factor count of
  \<open>calculateOverallConfidence\<close> is at least 1, so the fallback \<open>0\<close> of line 212 is not
  taken and the result is \<open>(confidence / factors) * 100\<close>.
\<close>

theorem metadata_supplied_factor_count:
  "snd (confidence_factors elaResults copyMoveResults (Some m)) \<ge> 1 \<and>
   calculateOverallConfidence elaResults copyMoveResults (Some m) =
     js_mul (js_div (fst (confidence_factors elaResults copyMoveResults (Some m)))
               (Num (real (snd (confidence_factors elaResults copyMoveResults (Some m))))))
       (Num 100)"
proof -
  have "snd (confidence_factors elaResults copyMoveResults (Some m)) \<ge> 1"
    by (simp add: confidence_factors_def Let_def split: prod.splits)
  then have "0 < snd (confidence_factors elaResults copyMoveResults (Some m))" by simp
  then show ?thesis
    by (cases "confidence_factors elaResults copyMoveResults (Some m)")
       (simp add: calculateOverallConfidence_def)
qed

section \<open>The metadata factor in binary64\<close>

text \<open>\<open>ilog2\<close> is the binary exponent: \<open>2 ^ ilog2 x \<le> x < 2 ^ (ilog2 x + 1)\<close>.\<close>

lemma ilog2_bounds:
  assumes "0 < x"
  shows "2 powi ilog2 x \<le> x \<and> x < 2 powi (ilog2 x + 1)"
proof (cases "1 \<le> x")
  case True
  then have n: "0 < \<lfloor>x\<rfloor>" by simp
  from bitlen_bounds [OF n]
  have b: "2 ^ nat (bitlen \<lfloor>x\<rfloor> - 1) \<le> \<lfloor>x\<rfloor>" "\<lfloor>x\<rfloor> < 2 ^ nat (bitlen \<lfloor>x\<rfloor>)"
    by simp_all
  from n have b1: "1 \<le> bitlen \<lfloor>x\<rfloor>" by (simp add: bitlen_alt_def)
  have "real_of_int (2 ^ nat (bitlen \<lfloor>x\<rfloor> - 1)) \<le> real_of_int \<lfloor>x\<rfloor>" using b(1) by linarith
  then have lo: "2 ^ nat (bitlen \<lfloor>x\<rfloor> - 1) \<le> x" by (simp add: le_floor_iff)
  have "\<lfloor>x\<rfloor> + 1 \<le> 2 ^ nat (bitlen \<lfloor>x\<rfloor>)" using b(2) by simp
  then have "real_of_int (\<lfloor>x\<rfloor> + 1) \<le> real_of_int (2 ^ nat (bitlen \<lfloor>x\<rfloor>))" by linarith
  then have hi: "x < 2 ^ nat (bitlen \<lfloor>x\<rfloor>)" by (simp add: floor_less_iff) linarith
  from True b1 lo hi show ?thesis
    by (simp add: ilog2_def power_int_def)
next
  case False
  define y where "y = 1 / x"
  define m where "m = \<lceil>y\<rceil> - 1"
  from False assms have y1: "1 < y" by (simp add: y_def)
  then have m0: "0 < m" by (simp add: m_def less_ceiling_iff)
  have my: "real_of_int m < y" "y \<le> real_of_int m + 1"
    using ceiling_correct [of y] by (simp_all add: m_def)
  from bitlen_bounds [OF m0] have b: "2 ^ nat (bitlen m - 1) \<le> m" "m < 2 ^ nat (bitlen m)"
    by simp_all
  from m0 have b1: "1 \<le> bitlen m" by (simp add: bitlen_alt_def)
  from b(1) have "real_of_int (2 ^ nat (bitlen m - 1)) \<le> real_of_int m"
    by (rule of_int_le_iff [THEN iffD2])
  then have "(2::real) ^ nat (bitlen m - 1) \<le> real_of_int m" by simp
  with my have lo: "2 ^ nat (bitlen m - 1) < y" by linarith
  have "m + 1 \<le> 2 ^ nat (bitlen m)" using b(2) by simp
  then have "real_of_int (m + 1) \<le> real_of_int (2 ^ nat (bitlen m))"
    by (rule of_int_le_iff [THEN iffD2])
  then have "real_of_int m + 1 \<le> (2::real) ^ nat (bitlen m)" by simp
  with my have hi: "y \<le> 2 ^ nat (bitlen m)" by linarith
  have x: "x = 1 / y" using assms by (simp add: y_def)
  have p1: "(2::real) powi (- bitlen m) = 1 / 2 ^ nat (bitlen m)"
    using b1 by (simp add: power_int_def field_simps)
  have p2: "(2::real) powi (- bitlen m + 1) = 1 / 2 ^ nat (bitlen m - 1)"
    using b1 by (simp add: power_int_def field_simps nat_diff_distrib)
  have "1 / 2 ^ nat (bitlen m) \<le> 1 / y"
    using hi y1 by (intro divide_left_mono) simp_all
  moreover have "1 / y < 1 / 2 ^ nat (bitlen m - 1)"
    using lo y1 by (intro divide_strict_left_mono) simp_all
  ultimately show ?thesis
    using False p1 p2 by (simp add: ilog2_def x y_def [symmetric] m_def [symmetric])
qed

text \<open>\<open>round_half_even\<close> picks a nearest integer.\<close>

lemma round_half_even_nearest: "\<bar>x - of_int (round_half_even x)\<bar> \<le> 1 / 2"
proof -
  have "of_int \<lfloor>x\<rfloor> \<le> x" "x < of_int \<lfloor>x\<rfloor> + 1" by linarith+
  then show ?thesis by (auto simp: round_half_even_def Let_def)
qed

text \<open>
  \<open>round_double\<close> moves a number by at most half a unit in the last place of its
  binade.
\<close>

lemma round_double_error:
  assumes "x \<noteq> 0"
  shows "\<bar>round_double x - x\<bar> \<le> 2 powi (max (ilog2 \<bar>x\<bar>) (- 1022) - 53)"
proof -
  define q where "q = max (ilog2 \<bar>x\<bar>) (- 1022) - 52"
  define y where "y = x / 2 powi q"
  have p: "(0::real) < 2 powi q" by simp
  have x: "x = y * 2 powi q" by (simp add: y_def)
  have rd: "round_double x = of_int (round_half_even y) * 2 powi q"
    using assms by (simp add: round_double_def Let_def q_def y_def)
  have "round_double x - x = (of_int (round_half_even y) - y) * 2 powi q"
    unfolding rd by (simp add: left_diff_distrib flip: x)
  then have "\<bar>round_double x - x\<bar> = \<bar>of_int (round_half_even y) - y\<bar> * 2 powi q"
    using p by (simp add: abs_mult)
  also have "\<dots> \<le> 1 / 2 * 2 powi q"
    using round_half_even_nearest [of y] p
    by (intro mult_right_mono) (simp_all add: abs_minus_commute)
  also have "\<dots> = 2 powi (q - 1)"
    by (simp add: power_int_diff)
  finally show ?thesis by (simp add: q_def)
qed

text \<open>The doubles of the two literals \<^verbatim>\<open>0.7\<close> and \<^verbatim>\<open>0.1\<close>.\<close>

lemma double_literals:
  "round_double (7 / 10) = 3152519739159347 / 4503599627370496"
  "round_double (1 / 10) = 3602879701896397 / 36028797018963968"
  by code_simp+

text \<open>
  The four rounded steps for three warnings: \<^verbatim>\<open>3 * 0.1\<close>, which is
  \<^verbatim>\<open>0.30000000000000004\<close>; one minus that, which is the double \<^verbatim>\<open>0.7\<close>;
  \<^verbatim>\<open>0.7 * 0.7\<close>, which is \<^verbatim>\<open>0.48999999999999994\<close>; and that times 100.
\<close>

lemma binary64_steps:
  "round_double (3 * round_double (1 / 10)) = 1351079888211149 / 4503599627370496"
  "round_double (1 - 1351079888211149 / 4503599627370496) = round_double (7 / 10)"
  "round_double (round_double (7 / 10) * round_double (7 / 10)) =
     8827055269646171 / 18014398509481984"
  "round_double (8827055269646171 / 18014398509481984 * 100) = 49 - 1 / 2 ^ 47"
  by code_simp+

text \<open>
  The binary64 aggregate reads the metadata through its two cues only: whether
  \<open>exifData\<close> is missing, and the number of warnings.
\<close>

lemma binary64_cues:
  assumes "(exifData m = None) = (exifData m' = None)" "length (warnings m) = length (warnings m')"
  shows "calculateOverallConfidence_binary64 e c (Some m) =
         calculateOverallConfidence_binary64 e c (Some m')"
proof -
  have "metadataConfidence_binary64 m = metadataConfidence_binary64 m'"
    unfolding metadataConfidence_binary64_def assms(2) using assms(1) by simp
  then show ?thesis
    by (simp add: calculateOverallConfidence_binary64_def confidence_factors_binary64_def)
qed

lemma binary64_no_signal:
  assumes "ela_regions e = []" "cm_confidence c = Num 0"
  shows "calculateOverallConfidence_binary64 e c md =
         calculateOverallConfidence_binary64 no_ela_regions no_copy_move md"
  using assms
  by (simp add: calculateOverallConfidence_binary64_def confidence_factors_binary64_def
      no_ela_regions_def no_copy_move_def)

lemma binary64_clean_metadata:
  "calculateOverallConfidence_binary64 no_ela_regions no_copy_move
     (Some \<lparr>exifData = Some [], warnings = []\<rparr>) = Num 100"
  by code_simp

lemma binary64_three_warnings:
  "calculateOverallConfidence_binary64 no_ela_regions no_copy_move
     (Some \<lparr>exifData = None, warnings = [''a'', ''b'', ''c'']\<rparr>) = Num (49 - 1 / 2 ^ 47)"
  by code_simp

text \<open>
  Claim C6, as stated: with no region, copy-move confidence 0, no EXIF data and three
  warnings the function returns exactly 49.0. In exact arithmetic it does. The
  function computes in binary64: \<^verbatim>\<open>3 * 0.1\<close> is \<^verbatim>\<open>0.30000000000000004\<close>,
  \<^verbatim>\<open>1 - 0.30000000000000004\<close> is \<^verbatim>\<open>0.7\<close>, \<^verbatim>\<open>0.7 * 0.7\<close> is \<^verbatim>\<open>0.48999999999999994\<close>,
  and \<^verbatim>\<open>0.48999999999999994 * 100\<close> is \<^verbatim>\<open>48.99999999999999\<close>, one unit in the last place
  below 49.
\<close>

theorem binary64_three_warnings_not_49:
  "calculateOverallConfidence_binary64 no_ela_regions no_copy_move
     (Some \<lparr>exifData = None, warnings = [''a'', ''b'', ''c'']\<rparr>) \<noteq> Num 49"
  by code_simp

text \<open>
  Claim C6, amended: with no region and copy-move confidence 0,
  \<open>calculateOverallConfidence\<close> returns exactly 100 when EXIF data is present and there
  is no warning, in exact arithmetic and in binary64 alike; with no EXIF data and three
  warnings the metadata factor is \<open>0.7 * (1 - 0.3) = 0.49\<close> and the result 49 in exact
  arithmetic, and the binary64 result is \<open>49 - 2 ^ - 47\<close>, printed
  \<^verbatim>\<open>48.99999999999999\<close>.
\<close>

theorem overall_confidence_metadata_only:
  assumes "ela_regions e = []" "cm_confidence c = Num 0"
      and "exifData m1 \<noteq> None" "length (warnings m1) = 0"
      and "exifData m2 = None" "length (warnings m2) = 3"
  shows "calculateOverallConfidence e c (Some m1) = Num 100 \<and>
         calculateOverallConfidence_binary64 e c (Some m1) = Num 100 \<and>
         metadataConfidence m2 = Num (49 / 100) \<and>
         calculateOverallConfidence e c (Some m2) = Num 49 \<and>
         calculateOverallConfidence_binary64 e c (Some m2) = Num (49 - 1 / 2 ^ 47)"
proof -
  have "calculateOverallConfidence e c (Some m1) = Num 100"
    using assms
    by (auto simp: calculateOverallConfidence_def confidence_factors_def metadataConfidence_def)
  moreover have "metadataConfidence m2 = Num (49 / 100)"
    using assms by (auto simp: metadataConfidence_def)
  moreover have "calculateOverallConfidence e c (Some m2) = Num 49"
    using assms
    by (auto simp: calculateOverallConfidence_def confidence_factors_def metadataConfidence_def)
  moreover have "calculateOverallConfidence_binary64 e c (Some m1) = Num 100"
    using binary64_no_signal [OF assms(1,2)]
      binary64_cues [of m1 "\<lparr>exifData = Some [], warnings = []\<rparr>" no_ela_regions no_copy_move]
      binary64_clean_metadata assms(3,4)
    by simp
  moreover have "calculateOverallConfidence_binary64 e c (Some m2) = Num (49 - 1 / 2 ^ 47)"
    using binary64_no_signal [OF assms(1,2)]
      binary64_cues [of m2 "\<lparr>exifData = None, warnings = [''a'', ''b'', ''c'']\<rparr>"
        no_ela_regions no_copy_move]
      binary64_three_warnings assms(5,6)
    by simp
  ultimately show ?thesis by simp
qed

text \<open>
  The amended claim at the inputs of the specification's two examples: clean metadata
  with an empty tag object, and missing EXIF data with three of the caller's warnings.
\<close>

theorem overall_confidence_metadata_only_witness:
  "calculateOverallConfidence no_ela_regions no_copy_move
     (Some \<lparr>exifData = Some [], warnings = []\<rparr>) = Num 100 \<and>
   calculateOverallConfidence_binary64 no_ela_regions no_copy_move
     (Some \<lparr>exifData = Some [], warnings = []\<rparr>) = Num 100 \<and>
   metadataConfidence \<lparr>exifData = None, warnings = [''No EXIF'', ''date'', ''size'']\<rparr> =
     Num (49 / 100) \<and>
   calculateOverallConfidence no_ela_regions no_copy_move
     (Some \<lparr>exifData = None, warnings = [''No EXIF'', ''date'', ''size'']\<rparr>) = Num 49 \<and>
   calculateOverallConfidence_binary64 no_ela_regions no_copy_move
     (Some \<lparr>exifData = None, warnings = [''No EXIF'', ''date'', ''size'']\<rparr>) =
     Num (49 - 1 / 2 ^ 47)"
  using overall_confidence_metadata_only [of no_ela_regions no_copy_move
      "\<lparr>exifData = Some [], warnings = []\<rparr>"
      "\<lparr>exifData = None, warnings = [''No EXIF'', ''date'', ''size'']\<rparr>"]
  by (simp add: no_ela_regions_def no_copy_move_def)

section \<open>The error-level analysis\<close>

lemma abs_diff_nonneg: "nonneg_or_nan (js_abs (js_sub a b))"
  by (cases a; cases b) (simp_all add: nonneg_or_nan_def)

lemma js_add_nonneg: "nonneg_or_nan a \<Longrightarrow> nonneg_or_nan b \<Longrightarrow> nonneg_or_nan (js_add a b)"
  by (cases a; cases b) (simp_all add: nonneg_or_nan_def)

lemma pixel_diff_nonneg: "nonneg_or_nan (pixel_diff od cd idx)"
  by (simp add: pixel_diff_def js_add_nonneg abs_diff_nonneg)

lemma ela_bx_loop_nonneg:
  "nonneg_or_nan (fst st) \<Longrightarrow> nonneg_or_nan (fst (ela_bx_loop w od cd x y b_y b_x st))"
proof (induction w od cd x y b_y b_x st rule: ela_bx_loop.induct)
  case (1 w od cd x y b_y b_x diffSum pixelCount)
  then show ?case
    by (subst ela_bx_loop.simps) (auto simp: js_add_nonneg pixel_diff_nonneg)
qed

lemma ela_by_loop_nonneg:
  "nonneg_or_nan (fst st) \<Longrightarrow> nonneg_or_nan (fst (ela_by_loop w h od cd x y b_y st))"
proof (induction w h od cd x y b_y st rule: ela_by_loop.induct)
  case (1 w h od cd x y b_y st)
  then show ?case
    by (subst ela_by_loop.simps) (auto simp: ela_bx_loop_nonneg)
qed

text \<open>\<open>normalizedDiff\<close> is \<open>NaN\<close> or lies in \<open>[0, 1]\<close>.\<close>

lemma ela_cell_range:
  "ela_cell w h od cd x y = NaN \<or> in_unit (ela_cell w h od cd x y)"
proof -
  obtain s n where sn: "ela_by_loop w h od cd x y 0 (Num 0, 0) = (s, n)"
    by (cases "ela_by_loop w h od cd x y 0 (Num 0, 0)")
  have "nonneg_or_nan (fst (ela_by_loop w h od cd x y 0 (Num 0, 0)))"
    by (rule ela_by_loop_nonneg) (simp add: nonneg_or_nan_def)
  with sn have "nonneg_or_nan s" by simp
  then show ?thesis
    by (cases s) (auto simp: ela_cell_def sn in_unit_def nonneg_or_nan_def)
qed

lemma ela_cell_gt:
  assumes "js_gt (ela_cell w h od cd x y) (Num (3 / 10))"
  shows "\<exists>c. ela_cell w h od cd x y = Num c \<and> 3 / 10 < c \<and> c \<le> 1"
  using assms ela_cell_range [of w h od cd x y]
  by (cases "ela_cell w h od cd x y") (auto simp: in_unit_def)

text \<open>A store at an index of the heatmap keeps its dimensions, and does not throw.\<close>

lemma heatmap_store_dims:
  assumes "hm_dims rows cols hm" "0 \<le> r" "r < int rows" "0 \<le> c" "c < int cols"
  shows "\<exists>hm'. heatmap_store hm r c v = Inr hm' \<and> hm_dims rows cols hm'"
proof -
  from assms have r: "nat r < length hm" by (simp add: hm_dims_def)
  then have row: "length (hm ! nat r) = cols" using assms(1) by (simp add: hm_dims_def)
  with assms have c: "c < int (length (hm ! nat r))" by simp
  have "\<forall>row\<in>set (hm[nat r := (hm ! nat r)[nat c := v]]). length row = cols"
  proof
    fix row assume "row \<in> set (hm[nat r := (hm ! nat r)[nat c := v]])"
    then have "row \<in> insert ((hm ! nat r)[nat c := v]) (set hm)"
      using set_update_subset_insert by fastforce
    with row assms(1) show "length row = cols" by (auto simp: hm_dims_def)
  qed
  with assms r c show ?thesis
    by (simp add: heatmap_store_def array_set_def hm_dims_def)
qed

text \<open>The cell of a pixel row \<open>y < H\<close> is one of the \<open>ceil(H / 16)\<close> rows.\<close>

lemma cell_row_index:
  assumes "0 \<le> y" "y < int H"
  shows "0 \<le> \<lfloor>real_of_int y / 16\<rfloor>" "\<lfloor>real_of_int y / 16\<rfloor> < int (nat \<lceil>real H / 16\<rceil>)"
proof -
  from assms show "0 \<le> \<lfloor>real_of_int y / 16\<rfloor>" by simp
  have "real_of_int y / 16 < real H / 16" using assms by simp
  also have "\<dots> \<le> of_int \<lceil>real H / 16\<rceil>" by (rule le_of_int_ceiling)
  finally have "\<lfloor>real_of_int y / 16\<rfloor> < \<lceil>real H / 16\<rceil>" by (simp add: floor_less_iff)
  moreover have "0 \<le> \<lceil>real H / 16\<rceil>" by simp
  ultimately show "\<lfloor>real_of_int y / 16\<rfloor> < int (nat \<lceil>real H / 16\<rceil>)" by simp
qed

lemma ela_push_ok:
  assumes "\<forall>r\<in>set regions. ela_region_ok w h r"
      and "0 \<le> x" "x < w" "16 dvd x" "0 \<le> y" "y < h" "16 dvd y"
  shows "\<forall>r\<in>set (ela_push x y (ela_cell w h od cd x y) regions). ela_region_ok w h r"
  using assms ela_cell_gt [of w h od cd x y]
  by (auto simp: ela_push_def ela_region_ok_def)

lemma ela_x_loop_inv:
  assumes "hm_dims (nat \<lceil>real H / 16\<rceil>) (nat \<lceil>real W / 16\<rceil>) hm"
      and "\<forall>r\<in>set regions. ela_region_ok (int W) (int H) r"
      and "0 \<le> x" "16 dvd x" "0 \<le> y" "y < int H" "16 dvd y"
  shows "\<exists>regions' hm'.
           ela_x_loop (int W) (int H) od cd y x (regions, hm) = Inr (regions', hm') \<and>
           hm_dims (nat \<lceil>real H / 16\<rceil>) (nat \<lceil>real W / 16\<rceil>) hm' \<and>
           (\<forall>r\<in>set regions'. ela_region_ok (int W) (int H) r)"
  using assms
proof (induction "int W" "int H" od cd y x "(regions, hm)" arbitrary: regions hm
    rule: ela_x_loop.induct)
  case (1 od cd y x regions hm)
  show ?case
  proof (cases "x < int W")
    case True
    let ?v = "ela_cell (int W) (int H) od cd x y"
    from heatmap_store_dims [OF "1.prems"(1) cell_row_index [OF "1.prems"(5,6)]
        cell_row_index [OF "1.prems"(3) True]]
    obtain hm' where hm':
      "heatmap_store hm \<lfloor>real_of_int y / 16\<rfloor> \<lfloor>real_of_int x / 16\<rfloor> ?v = Inr hm'"
      "hm_dims (nat \<lceil>real H / 16\<rceil>) (nat \<lceil>real W / 16\<rceil>) hm'"
      by blast
    have push: "\<forall>r\<in>set (ela_push x y ?v regions). ela_region_ok (int W) (int H) r"
      using "1.prems" True by (intro ela_push_ok) simp_all
    from "1.prems"(3,4) have x16: "0 \<le> x + 16" "16 dvd x + 16" by simp_all
    from "1.hyps" [OF True refl hm'(1) hm'(2) push x16 "1.prems"(5,6,7)]
    show ?thesis
      using True hm'(1) by (subst ela_x_loop.simps) simp
  next
    case False
    with "1.prems" show ?thesis by (subst ela_x_loop.simps) simp
  qed
qed

lemma ela_y_loop_inv:
  assumes "hm_dims (nat \<lceil>real H / 16\<rceil>) (nat \<lceil>real W / 16\<rceil>) hm"
      and "\<forall>r\<in>set regions. ela_region_ok (int W) (int H) r"
      and "0 \<le> y" "16 dvd y"
  shows "\<exists>regions' hm'.
           ela_y_loop (int W) (int H) od cd y (regions, hm) = Inr (regions', hm') \<and>
           hm_dims (nat \<lceil>real H / 16\<rceil>) (nat \<lceil>real W / 16\<rceil>) hm' \<and>
           (\<forall>r\<in>set regions'. ela_region_ok (int W) (int H) r)"
  using assms
proof (induction "int W" "int H" od cd y "(regions, hm)" arbitrary: regions hm
    rule: ela_y_loop.induct)
  case (1 od cd y regions hm)
  show ?case
  proof (cases "y < int H")
    case True
    from ela_x_loop_inv [OF "1.prems"(1,2) _ _ "1.prems"(3) True "1.prems"(4), of 0 od cd]
    obtain regions' hm' where x:
      "ela_x_loop (int W) (int H) od cd y 0 (regions, hm) = Inr (regions', hm')"
      "hm_dims (nat \<lceil>real H / 16\<rceil>) (nat \<lceil>real W / 16\<rceil>) hm'"
      "\<forall>r\<in>set regions'. ela_region_ok (int W) (int H) r"
      by auto
    from "1.prems"(3,4) have y16: "0 \<le> y + 16" "16 dvd y + 16" by simp_all
    from "1.hyps" [OF True x(1) x(2) x(3) y16]
    show ?thesis
      using True x(1) by (subst ela_y_loop.simps) simp
  next
    case False
    with "1.prems" show ?thesis by (subst ela_y_loop.simps) simp
  qed
qed

text \<open>
  The loops of the analysis never throw; they keep the heatmap's dimensions and
  push regions of the grid only.
\<close>

lemma ela_blocks_inv:
  "\<exists>res. ela_blocks W H od cd = Inr res \<and>
     hm_dims (nat \<lceil>real H / 16\<rceil>) (nat \<lceil>real W / 16\<rceil>) (heatmap res) \<and>
     (\<forall>r\<in>set (ela_regions res). ela_region_ok (int W) (int H) r)"
proof -
  have "hm_dims (nat \<lceil>real H / 16\<rceil>) (nat \<lceil>real W / 16\<rceil>)
          (replicate (nat \<lceil>real H / 16\<rceil>) (replicate (nat \<lceil>real W / 16\<rceil>) (Num 0)))"
    by (simp add: hm_dims_def)
  from ela_y_loop_inv [OF this, of "[]" 0 od cd]
  obtain regions' hm' where
    "ela_y_loop (int W) (int H) od cd 0
       ([], replicate (nat \<lceil>real H / 16\<rceil>) (replicate (nat \<lceil>real W / 16\<rceil>) (Num 0))) =
     Inr (regions', hm')"
    "hm_dims (nat \<lceil>real H / 16\<rceil>) (nat \<lceil>real W / 16\<rceil>) hm'"
    "\<forall>r\<in>set regions'. ela_region_ok (int W) (int H) r"
    by auto
  then show ?thesis by (simp add: ela_blocks_def)
qed

text \<open>
  Claim C7: the heatmap \<open>performErrorLevelAnalysis\<close> returns has exactly
  \<open>ceil(height / 16)\<close> rows of \<open>ceil(width / 16)\<close> cells each, for every width and
  height, a multiple of 16 or not. The function returns whenever the canvas calls
  do.
\<close>

theorem ela_heatmap_dimensions:
  assumes "canvas imageData quality = Inr (originalData, compressedData)"
  shows "\<exists>res. performErrorLevelAnalysis canvas imageData quality = Inr res \<and>
           length (heatmap res) = nat \<lceil>real (img_height imageData) / 16\<rceil> \<and>
           (\<forall>row\<in>set (heatmap res). length row = nat \<lceil>real (img_width imageData) / 16\<rceil>)"
  using assms ela_blocks_inv [of "img_width imageData" "img_height imageData"
      originalData compressedData]
  by (auto simp: performErrorLevelAnalysis_def hm_dims_def)

text \<open>
  The claim at an image of 17 by 33 pixels, neither a multiple of 16: three rows of
  two cells.
\<close>

theorem ela_heatmap_dimensions_witness:
  "\<exists>res. performErrorLevelAnalysis lossless_canvas (uniform_image 17 33 [1, 2, 3, 255])
            (95 / 100) = Inr res \<and>
     length (heatmap res) = 3 \<and> list_all (\<lambda>row. length row = 2) (heatmap res)"
  using ela_heatmap_dimensions [of lossless_canvas "uniform_image 17 33 [1, 2, 3, 255]"
      "95 / 100" "img_data (uniform_image 17 33 [1, 2, 3, 255])"
      "img_data (uniform_image 17 33 [1, 2, 3, 255])"]
  by (simp add: lossless_canvas_def list_all_iff uniform_image_def)

subsection \<open>A lossless round trip\<close>

text \<open>
  The samples of the pixel in row \<open>r\<close> and column \<open>c\<close> are indices of an array of
  \<open>4 * W * H\<close> samples.
\<close>

lemma pixel_index_range:
  assumes "0 \<le> r" "r < int H" "0 \<le> c" "c < int W"
  shows "0 \<le> r * int W + c" "r * int W + c < int (W * H)"
proof -
  from assms show "0 \<le> r * int W + c" by simp
  from assms have "r + 1 \<le> int H" by simp
  then have "(r + 1) * int W \<le> int H * int W" by (rule mult_right_mono) simp
  then have "r * int W + int W \<le> int H * int W" by (simp add: algebra_simps)
  with assms show "r * int W + c < int (W * H)" by (simp add: algebra_simps)
qed

lemma pixel_diff_same:
  assumes "0 \<le> idx" "idx + 3 < int (length d)"
  shows "pixel_diff d d idx = Num 0"
  using assms by (simp add: pixel_diff_def sample_def)

lemma ela_bx_loop_same:
  assumes "cd = od" "length od = 4 * W * H" "0 \<le> x" "0 \<le> b_x" "0 \<le> y + b_y" "y + b_y < int H"
      and "fst st = Num 0"
  shows "\<exists>n'. ela_bx_loop (int W) od cd x y b_y b_x st = (Num 0, n') \<and>
           (if b_x < 16 \<and> x + b_x < int W then snd st < n' else snd st = n')"
  using assms
proof (induction "int W" od cd x y b_y b_x st rule: ela_bx_loop.induct)
  case (1 od cd x y b_y b_x diffSum pixelCount)
  show ?case
  proof (cases "b_x < 16 \<and> x + b_x < int W")
    case True
    have c: "0 \<le> x + b_x" "x + b_x < int W" using "1.prems" True by simp_all
    from pixel_index_range [OF "1.prems"(5,6) c] "1.prems"(1,2)
    have pd: "pixel_diff od cd (((y + b_y) * int W + (x + b_x)) * 4) = Num 0"
      by (simp add: pixel_diff_same)
    have b1: "0 \<le> b_x + 1" using "1.prems" by simp
    have st: "fst (js_add diffSum (pixel_diff od cd (((y + b_y) * int W + (x + b_x)) * 4)),
                   pixelCount + 1) = Num 0"
      using pd "1.prems"(7) by simp
    from "1.hyps" [OF True "1.prems"(1,2,3) b1 "1.prems"(5,6) st]
    obtain n' where "ela_bx_loop (int W) od cd x y b_y (b_x + 1)
        (js_add diffSum (pixel_diff od cd (((y + b_y) * int W + (x + b_x)) * 4)),
         pixelCount + 1) = (Num 0, n')"
      "pixelCount + 1 \<le> n'"
      by (auto split: if_splits)
    with True show ?thesis by (subst ela_bx_loop.simps) simp
  next
    case False
    with "1.prems"(7) show ?thesis by (subst ela_bx_loop.simps) auto
  qed
qed

lemma ela_by_loop_same:
  assumes "cd = od" "length od = 4 * W * H" "0 \<le> x" "0 \<le> y" "0 \<le> b_y" "fst st = Num 0"
  shows "\<exists>n'. ela_by_loop (int W) (int H) od cd x y b_y st = (Num 0, n') \<and> snd st \<le> n' \<and>
           (b_y < 16 \<and> y + b_y < int H \<and> x < int W \<longrightarrow> snd st < n')"
  using assms
proof (induction "int W" "int H" od cd x y b_y st rule: ela_by_loop.induct)
  case (1 od cd x y b_y st)
  show ?case
  proof (cases "b_y < 16 \<and> y + b_y < int H")
    case True
    have r: "0 \<le> y + b_y" "y + b_y < int H" using "1.prems" True by simp_all
    from ela_bx_loop_same [OF "1.prems"(1,2,3) _ r "1.prems"(6), of 0]
    obtain m where m: "ela_bx_loop (int W) od cd x y b_y 0 st = (Num 0, m)"
      "if (0::int) < 16 \<and> x + 0 < int W then snd st < m else snd st = m"
      by auto
    have b1: "0 \<le> b_y + 1" using "1.prems" by simp
    have st: "fst (ela_bx_loop (int W) od cd x y b_y 0 st) = Num 0" using m(1) by simp
    from "1.hyps" [OF True "1.prems"(1,2,3,4) b1 st] m(1)
    obtain n' where n':
      "ela_by_loop (int W) (int H) od cd x y (b_y + 1) (Num 0, m) = (Num 0, n')" "m \<le> n'"
      by auto
    from True m n' show ?thesis
      by (subst ela_by_loop.simps) (auto split: if_splits)
  next
    case False
    with "1.prems"(6) show ?thesis
      by (subst ela_by_loop.simps) (cases st, auto)
  qed
qed

text \<open>A cell of the image has a pixel, so its average is \<open>0 / n\<close> with \<open>n > 0\<close>.\<close>

lemma ela_cell_same:
  assumes "length od = 4 * W * H" "0 \<le> x" "x < int W" "0 \<le> y" "y < int H"
  shows "ela_cell (int W) (int H) od od x y = Num 0"
proof -
  from ela_by_loop_same [OF refl assms(1,2,4), of 0 "(Num 0, 0)"] assms
  obtain n where "ela_by_loop (int W) (int H) od od x y 0 (Num 0, 0) = (Num 0, n)" "0 < n"
    by auto
  then show ?thesis by (simp add: ela_cell_def)
qed

lemma replicate_update_same: "(replicate n v)[i := v] = replicate n v"
  by (cases "i < n") (simp_all add: list_eq_iff_nth_eq nth_list_update)

lemma heatmap_store_zero:
  assumes "0 \<le> r" "r < int rows" "0 \<le> c" "c < int cols"
  shows "heatmap_store (replicate rows (replicate cols (Num 0))) r c (Num 0) =
           Inr (replicate rows (replicate cols (Num 0)))"
  using assms by (simp add: heatmap_store_def array_set_def replicate_update_same)

lemma ela_x_loop_same:
  assumes "cd = od" "length od = 4 * W * H" "0 \<le> x" "0 \<le> y" "y < int H"
      and "hm = replicate (nat \<lceil>real H / 16\<rceil>) (replicate (nat \<lceil>real W / 16\<rceil>) (Num 0))"
  shows "ela_x_loop (int W) (int H) od cd y x (regions, hm) = Inr (regions, hm)"
  using assms
proof (induction "int W" "int H" od cd y x "(regions, hm)" arbitrary: regions hm
    rule: ela_x_loop.induct)
  case (1 od cd y x regions hm)
  show ?case
  proof (cases "x < int W")
    case True
    have cell: "ela_cell (int W) (int H) od cd x y = Num 0"
      using "1.prems" True by (simp add: ela_cell_same)
    have "heatmap_store hm \<lfloor>real_of_int y / 16\<rfloor> \<lfloor>real_of_int x / 16\<rfloor> (Num 0) = Inr hm"
      unfolding "1.prems"(6)
      by (rule heatmap_store_zero [OF cell_row_index [OF "1.prems"(4,5)]
            cell_row_index [OF "1.prems"(3) True]])
    with cell have store: "heatmap_store hm \<lfloor>real_of_int y / 16\<rfloor> \<lfloor>real_of_int x / 16\<rfloor>
        (ela_cell (int W) (int H) od cd x y) = Inr hm"
      by simp
    have push: "ela_push x y (ela_cell (int W) (int H) od cd x y) regions = regions"
      by (simp add: cell ela_push_def)
    have x16: "0 \<le> x + 16" using "1.prems" by simp
    from "1.hyps" [OF True refl store "1.prems"(1,2) x16 "1.prems"(4,5,6)] push
    have "ela_x_loop (int W) (int H) od cd y (x + 16) (regions, hm) = Inr (regions, hm)"
      by simp
    with True store push show ?thesis by (subst ela_x_loop.simps) simp
  next
    case False
    then show ?thesis by (subst ela_x_loop.simps) simp
  qed
qed

lemma ela_y_loop_same:
  assumes "cd = od" "length od = 4 * W * H" "0 \<le> y"
      and "hm = replicate (nat \<lceil>real H / 16\<rceil>) (replicate (nat \<lceil>real W / 16\<rceil>) (Num 0))"
  shows "ela_y_loop (int W) (int H) od cd y (regions, hm) = Inr (regions, hm)"
  using assms
proof (induction "int W" "int H" od cd y "(regions, hm)" arbitrary: regions hm
    rule: ela_y_loop.induct)
  case (1 od cd y regions hm)
  show ?case
  proof (cases "y < int H")
    case True
    have x: "ela_x_loop (int W) (int H) od cd y 0 (regions, hm) = Inr (regions, hm)"
      using "1.prems" True by (intro ela_x_loop_same) simp_all
    have y16: "0 \<le> y + 16" using "1.prems" by simp
    from "1.hyps" [OF True x "1.prems"(1,2) y16 "1.prems"(4)]
    have "ela_y_loop (int W) (int H) od cd (y + 16) (regions, hm) = Inr (regions, hm)" .
    with True x show ?thesis by (subst ela_y_loop.simps) simp
  next
    case False
    then show ?thesis by (subst ela_y_loop.simps) simp
  qed
qed

text \<open>
  Claim C8: when the round trip is the identity, the recompressed samples being the
  original samples (\<open>4 * width * height\<close> of them, as \<^verbatim>\<open>getImageData\<close> returns),
  \<open>performErrorLevelAnalysis\<close> returns no region and a heatmap whose every cell is 0.
\<close>

theorem ela_identity_round_trip:
  assumes "canvas imageData quality = Inr (originalData, originalData)"
      and "length originalData = 4 * img_width imageData * img_height imageData"
  shows "\<exists>res. performErrorLevelAnalysis canvas imageData quality = Inr res \<and>
           ela_regions res = [] \<and>
           length (heatmap res) = nat \<lceil>real (img_height imageData) / 16\<rceil> \<and>
           (\<forall>row\<in>set (heatmap res).
              length row = nat \<lceil>real (img_width imageData) / 16\<rceil> \<and>
              (\<forall>v\<in>set row. v = Num 0))"
proof -
  have "ela_y_loop (int (img_width imageData)) (int (img_height imageData))
          originalData originalData 0
          ([], replicate (nat \<lceil>real (img_height imageData) / 16\<rceil>)
                 (replicate (nat \<lceil>real (img_width imageData) / 16\<rceil>) (Num 0))) =
        Inr ([], replicate (nat \<lceil>real (img_height imageData) / 16\<rceil>)
                 (replicate (nat \<lceil>real (img_width imageData) / 16\<rceil>) (Num 0)))"
    using assms(2) by (intro ela_y_loop_same) simp_all
  with assms(1) show ?thesis
    by (simp add: performErrorLevelAnalysis_def ela_blocks_def)
qed

text \<open>The samples of a uniform image.\<close>

lemma length_concat_replicate: "length (concat (replicate n xs)) = n * length xs"
  by (induction n) simp_all

lemma nth_concat_replicate:
  assumes "i < n * length xs"
  shows "concat (replicate n xs) ! i = xs ! (i mod length xs)"
  using assms
proof (induction n arbitrary: i)
  case 0
  then show ?case by simp
next
  case (Suc n)
  show ?case
  proof (cases "i < length xs")
    case True
    then show ?thesis by (simp add: nth_append)
  next
    case False
    with Suc.prems have "i - length xs < n * length xs" by simp
    from Suc.IH [OF this] False show ?thesis
      by (simp add: nth_append le_mod_geq)
  qed
qed

lemma uniform_image_fields [simp]:
  "img_width (uniform_image W H px) = W" "img_height (uniform_image W H px) = H"
  "length (img_data (uniform_image W H px)) = W * H * length px"
  by (simp_all add: uniform_image_def length_concat_replicate)

text \<open>
  The claim at a lossless canvas and an image of 17 by 33 pixels: no region, and
  three rows of two zeros.
\<close>

theorem ela_identity_round_trip_witness:
  "\<exists>res. performErrorLevelAnalysis lossless_canvas (uniform_image 17 33 [1, 2, 3, 255])
            (95 / 100) = Inr res \<and>
     ela_regions res = [] \<and> length (heatmap res) = 3 \<and>
     list_all (\<lambda>row. length row = 2 \<and> list_all (\<lambda>v. v = Num 0) row) (heatmap res)"
  using ela_identity_round_trip [of lossless_canvas "uniform_image 17 33 [1, 2, 3, 255]"
      "95 / 100" "img_data (uniform_image 17 33 [1, 2, 3, 255])"]
  by (simp add: lossless_canvas_def list_all_iff)

section \<open>The copy-move detector\<close>

subsection \<open>Blocks and regions\<close>

lemma copy_bx_loop_length:
  "length (fst (copy_bx_loop img x y b_y b_x st)) = length (fst st)"
proof (induction img x y b_y b_x st rule: copy_bx_loop.induct)
  case (1 img x y b_y b_x blockData idx)
  then show ?case by (subst copy_bx_loop.simps) (auto simp: Let_def)
qed

lemma copy_by_loop_length:
  "length (fst (copy_by_loop img x y b_y st)) = length (fst st)"
proof (induction img x y b_y st rule: copy_by_loop.induct)
  case (1 img x y b_y st)
  then show ?case by (subst copy_by_loop.simps) (auto simp: copy_bx_loop_length)
qed

lemma extract_block_fields:
  "blk_x (extract_block img x y) = x" "blk_y (extract_block img x y) = y"
  "length (blk_data (extract_block img x y)) = 4096"
proof -
  obtain bd idx where e: "copy_by_loop img x y 0 (replicate (32 * 32 * 4) 0, 0) = (bd, idx)"
    by (cases "copy_by_loop img x y 0 (replicate (32 * 32 * 4) 0, 0)")
  then show "blk_x (extract_block img x y) = x" "blk_y (extract_block img x y) = y"
    by (simp_all add: extract_block_def)
  from copy_by_loop_length [of img x y 0 "(replicate (32 * 32 * 4) 0, 0)"] e
  show "length (blk_data (extract_block img x y)) = 4096"
    by (simp add: extract_block_def)
qed

lemma extract_x_loop_inv:
  assumes "\<forall>b\<in>set blocks. block_ok (img_width img) (img_height img) b"
      and "0 \<le> x" "0 \<le> y" "y + 32 < int (img_height img)"
  shows "\<forall>b\<in>set (extract_x_loop img y x blocks). block_ok (img_width img) (img_height img) b"
  using assms
proof (induction img y x blocks rule: extract_x_loop.induct)
  case (1 img y x blocks)
  show ?case
  proof (cases "x < int (img_width img) - 32")
    case True
    have "block_ok (img_width img) (img_height img) (extract_block img x y)"
      using True "1.prems" by (simp add: block_ok_def extract_block_fields)
    with "1.prems" have "\<forall>b\<in>set (blocks @ [extract_block img x y]). block_ok (img_width img) (img_height img) b"
      by simp
    from "1.IH" [OF True this] "1.prems" True show ?thesis
      by (subst extract_x_loop.simps) simp
  next
    case False
    with "1.prems" show ?thesis by (subst extract_x_loop.simps) simp
  qed
qed

lemma extract_y_loop_inv:
  assumes "\<forall>b\<in>set blocks. block_ok (img_width img) (img_height img) b" and "0 \<le> y"
  shows "\<forall>b\<in>set (extract_y_loop img y blocks). block_ok (img_width img) (img_height img) b"
  using assms
proof (induction img y blocks rule: extract_y_loop.induct)
  case (1 img y blocks)
  show ?case
  proof (cases "y < int (img_height img) - 32")
    case True
    have "\<forall>b\<in>set (extract_x_loop img y 0 blocks). block_ok (img_width img) (img_height img) b"
      using True "1.prems" by (intro extract_x_loop_inv) simp_all
    from "1.IH" [OF True this] "1.prems" True show ?thesis
      by (subst extract_y_loop.simps) simp
  next
    case False
    with "1.prems" show ?thesis by (subst extract_y_loop.simps) simp
  qed
qed

lemma diff_loop_nonneg:
  "nonneg_or_nan s \<Longrightarrow> nonneg_or_nan (diff_loop b1 b2 i s)"
proof (induction b1 b2 i s rule: diff_loop.induct)
  case (1 block1 block2 i diffSum)
  then show ?case
    by (subst diff_loop.simps) (auto simp: js_add_nonneg abs_diff_nonneg)
qed

lemma similar_confidence:
  assumes "areBlocksSimilar b1 b2 5"
  shows "\<exists>c. calculateSimilarityConfidence b1 b2 = Num c \<and> 250 / 255 < c \<and> c \<le> 1"
proof -
  have nn: "nonneg_or_nan (diff_loop b1 b2 0 (Num 0))"
    by (rule diff_loop_nonneg) (simp add: nonneg_or_nan_def)
  from assms obtain s where s: "diff_loop b1 b2 0 (Num 0) = Num s"
    by (cases "diff_loop b1 b2 0 (Num 0)") (simp_all add: areBlocksSimilar_def)
  with nn have s0: "0 \<le> s" by (simp add: nonneg_or_nan_def)
  from assms s have len: "length b1 \<noteq> 0"
    by (auto simp: areBlocksSimilar_def)
  define a where "a = s / (real (length b1) / 4)"
  from assms s len have a5: "a < 5" by (simp add: areBlocksSimilar_def a_def)
  from s0 len have a0: "0 \<le> a" by (simp add: a_def)
  have conf: "calculateSimilarityConfidence b1 b2 = Num (max 0 (1 - a / 255))"
    using s len by (simp add: calculateSimilarityConfidence_def a_def)
  from a5 a0 have "250 / 255 < 1 - a / 255" "1 - a / 255 \<le> 1" by simp_all
  then have "250 / 255 < max 0 (1 - a / 255)" "max 0 (1 - a / 255) \<le> 1" by simp_all
  with conf show ?thesis by blast
qed

lemma compare_pair_inv:
  assumes "\<forall>r\<in>set regions. cm_region_ok W H r" "block_ok W H bi" "block_ok W H bj"
  shows "\<forall>r\<in>set (compare_pair bi bj regions). cm_region_ok W H r"
proof (cases "areBlocksSimilar (blk_data bi) (blk_data bj) 5 \<and> block_distance bi bj > 32 * 2")
  case True
  from similar_confidence [of "blk_data bi" "blk_data bj"] True
  obtain c where "calculateSimilarityConfidence (blk_data bi) (blk_data bj) = Num c"
    "250 / 255 < c" "c \<le> 1" by blast
  with True assms show ?thesis
    by (auto simp: compare_pair_def cm_region_ok_def block_ok_def Let_def)
next
  case False
  with assms(1) show ?thesis by (auto simp: compare_pair_def Let_def)
qed

lemma compare_j_loop_inv:
  assumes "\<forall>r\<in>set regions. cm_region_ok W H r" "\<forall>b\<in>set blocks. block_ok W H b" "i < length blocks"
  shows "\<forall>r\<in>set (compare_j_loop blocks i j regions). cm_region_ok W H r"
  using assms
proof (induction blocks i j regions rule: compare_j_loop.induct)
  case (1 blocks i j regions)
  show ?case
  proof (cases "j < length blocks")
    case True
    have "\<forall>r\<in>set (compare_pair (blocks ! i) (blocks ! j) regions). cm_region_ok W H r"
      using "1.prems" True by (intro compare_pair_inv) simp_all
    from "1.IH" [OF True this "1.prems"(2,3)] True show ?thesis
      by (subst compare_j_loop.simps) simp
  next
    case False
    with "1.prems" show ?thesis by (subst compare_j_loop.simps) simp
  qed
qed

lemma compare_i_loop_inv:
  assumes "\<forall>r\<in>set regions. cm_region_ok W H r" "\<forall>b\<in>set blocks. block_ok W H b"
  shows "\<forall>r\<in>set (compare_i_loop blocks i regions). cm_region_ok W H r"
  using assms
proof (induction blocks i regions rule: compare_i_loop.induct)
  case (1 blocks i regions)
  show ?case
  proof (cases "i < length blocks")
    case True
    have "\<forall>r\<in>set (compare_j_loop blocks i (i + 1) regions). cm_region_ok W H r"
      using "1.prems" True by (intro compare_j_loop_inv) simp_all
    from "1.IH" [OF True this "1.prems"(2)] True show ?thesis
      by (subst compare_i_loop.simps) simp
  next
    case False
    with "1.prems" show ?thesis by (subst compare_i_loop.simps) simp
  qed
qed

lemma detectCopyMove_regions_ok:
  "\<exists>res. detectCopyMove img = Inr res \<and>
     (\<forall>r\<in>set (cm_regions res). cm_region_ok (img_width img) (img_height img) r)"
proof -
  have "\<forall>b\<in>set (extract_y_loop img 0 []). block_ok (img_width img) (img_height img) b"
    by (rule extract_y_loop_inv) simp_all
  then have "\<forall>r\<in>set (compare_i_loop (extract_y_loop img 0 []) 0 []).
      cm_region_ok (img_width img) (img_height img) r"
    by (intro compare_i_loop_inv) simp_all
  then show ?thesis by (simp add: detectCopyMove_def Let_def)
qed

subsection \<open>Uniform images\<close>

lemma data_byte_uniform:
  assumes "length px = 4" "0 \<le> k" "k < int (W * H)" "j < 4"
  shows "data_byte (img_data (uniform_image W H px)) (k * 4 + int j) = px ! j"
proof -
  from assms have r: "0 \<le> k * 4 + int j" "nat (k * 4 + int j) < W * H * length px"
    "k * 4 + int j < int (length (concat (replicate (W * H) px)))"
    by (simp_all add: nat_less_iff length_concat sum_list_replicate)
  have "nat (k * 4 + int j) mod 4 = j"
  proof -
    from assms(2) have "nat (k * 4 + int j) = nat k * 4 + j"
      by (simp add: nat_add_distrib nat_mult_distrib)
    with assms(4) show ?thesis by simp
  qed
  with r assms(1) show ?thesis
    by (simp add: data_byte_def uniform_image_def nth_concat_replicate)
qed

lemma copy_bx_loop_uniform:
  assumes "length px = 4"
      and "0 \<le> x" "x + 32 \<le> int W" "0 \<le> y + b_y" "y + b_y < int H" 
      and "0 \<le> x'" "x' + 32 \<le> int W" "0 \<le> y' + b_y'" "y' + b_y' < int H"
      and "0 \<le> b_x"
  shows "copy_bx_loop (uniform_image W H px) x y b_y b_x st =
         copy_bx_loop (uniform_image W H px) x' y' b_y' b_x st"
  using assms
proof (induction "uniform_image W H px" x y b_y b_x st rule: copy_bx_loop.induct)
  case (1 x y b_y b_x blockData idx)
  show ?case
  proof (cases "b_x < 32")
    case True
    let ?d = "img_data (uniform_image W H px)"
    let ?k = "(y + b_y) * int W + (x + b_x)"
    let ?k' = "(y' + b_y') * int W + (x' + b_x)"
    have k: "0 \<le> ?k" "?k < int (W * H)"
      using "1.prems" True by (intro pixel_index_range; simp)+
    have k': "0 \<le> ?k'" "?k' < int (W * H)"
      using "1.prems" True by (intro pixel_index_range; simp)+
    have eq: "data_byte ?d (?k * 4) = data_byte ?d (?k' * 4)"
      "data_byte ?d (?k * 4 + 1) = data_byte ?d (?k' * 4 + 1)"
      "data_byte ?d (?k * 4 + 2) = data_byte ?d (?k' * 4 + 2)"
      "data_byte ?d (?k * 4 + 3) = data_byte ?d (?k' * 4 + 3)"
      using data_byte_uniform [OF "1.prems"(1) k, of 0] data_byte_uniform [OF "1.prems"(1) k', of 0]
        data_byte_uniform [OF "1.prems"(1) k, of 1] data_byte_uniform [OF "1.prems"(1) k', of 1]
        data_byte_uniform [OF "1.prems"(1) k, of 2] data_byte_uniform [OF "1.prems"(1) k', of 2]
        data_byte_uniform [OF "1.prems"(1) k, of 3] data_byte_uniform [OF "1.prems"(1) k', of 3]
      by simp_all
    have b1: "0 \<le> b_x + 1" using "1.prems" by simp
    note IH = "1.hyps" [OF True refl "1.prems"(1-9) b1]
    show ?thesis
      apply (subst copy_bx_loop.simps)
      apply (subst (2) copy_bx_loop.simps)
      using True eq IH by (simp add: Let_def)
  next
    case False
    then show ?thesis
      by (simp add: copy_bx_loop.simps [of _ _ _ _ b_x])
  qed
qed


lemma copy_by_loop_uniform:
  assumes "length px = 4"
      and "0 \<le> x" "x + 32 \<le> int W" "0 \<le> y" "y + 32 \<le> int H"
      and "0 \<le> x'" "x' + 32 \<le> int W" "0 \<le> y'" "y' + 32 \<le> int H"
      and "0 \<le> b_y"
  shows "copy_by_loop (uniform_image W H px) x y b_y st =
         copy_by_loop (uniform_image W H px) x' y' b_y st"
  using assms
proof (induction "uniform_image W H px" x y b_y st rule: copy_by_loop.induct)
  case (1 x y b_y st)
  show ?case
  proof (cases "b_y < 32")
    case True
    have row: "copy_bx_loop (uniform_image W H px) x y b_y 0 st =
               copy_bx_loop (uniform_image W H px) x' y' b_y 0 st"
      using "1.prems" True by (intro copy_bx_loop_uniform) simp_all
    have b1: "0 \<le> b_y + 1" using "1.prems" by simp
    note IH = "1.hyps" [OF True "1.prems"(1-9) b1]
    show ?thesis
      apply (subst copy_by_loop.simps)
      apply (subst (2) copy_by_loop.simps)
      using True row IH by simp
  next
    case False
    then show ?thesis
      by (simp add: copy_by_loop.simps [of _ _ _ b_y])
  qed
qed

lemma extract_block_uniform:
  assumes "length px = 4"
      and "0 \<le> x" "x + 32 \<le> int W" "0 \<le> y" "y + 32 \<le> int H"
      and "0 \<le> x'" "x' + 32 \<le> int W" "0 \<le> y'" "y' + 32 \<le> int H"
  shows "blk_data (extract_block (uniform_image W H px) x y) =
         blk_data (extract_block (uniform_image W H px) x' y')"
  using copy_by_loop_uniform [OF assms, of 0 "(replicate (32 * 32 * 4) 0, 0)"]
  by (simp add: extract_block_def split: prod.splits)

lemma diff_loop_same:
  assumes "b2 = b1" "s = Num 0" "4 dvd length b1" "0 \<le> i" "4 dvd i"
  shows "diff_loop b1 b2 i s = Num 0"
  using assms
proof (induction b1 b2 i s rule: diff_loop.induct)
  case (1 block1 block2 i diffSum)
  show ?case
  proof (cases "i < int (length block1)")
    case True
    from "1.prems" True have "i + 3 < int (length block1)"
      by (auto simp: dvd_def)
    with "1.prems" have z: "js_add diffSum
       (js_add (js_add (js_abs (js_sub (sample block1 i) (sample block2 i)))
                       (js_abs (js_sub (sample block1 (i + 1)) (sample block2 (i + 1)))))
               (js_abs (js_sub (sample block1 (i + 2)) (sample block2 (i + 2))))) = Num 0"
      by (simp add: sample_def)
    from "1.prems" have i4: "0 \<le> i + 4" "4 dvd i + 4" by simp_all
    from "1.IH" [OF True "1.prems"(1) z "1.prems"(3) i4] True show ?thesis
      by (subst diff_loop.simps) simp
  next
    case False
    with "1.prems" show ?thesis by (subst diff_loop.simps) simp
  qed
qed

lemma same_block_similar:
  assumes "length b = 4096"
  shows "areBlocksSimilar b b 5" "calculateSimilarityConfidence b b = Num 1"
proof -
  have "diff_loop b b 0 (Num 0) = Num 0"
    using assms by (intro diff_loop_same) simp_all
  with assms show "areBlocksSimilar b b 5" "calculateSimilarityConfidence b b = Num 1"
    by (simp_all add: areBlocksSimilar_def calculateSimilarityConfidence_def)
qed

lemma block_distance_gt_iff:
  "(64 < block_distance bi bj) = (4096 < (blk_x bi - blk_x bj)\<^sup>2 + (blk_y bi - blk_y bj)\<^sup>2)"
proof -
  have "sqrt 4096 = 64" by (rule real_sqrt_unique) simp_all
  then have "(64 < block_distance bi bj) =
      (sqrt 4096 < sqrt (real_of_int ((blk_x bi - blk_x bj)\<^sup>2 + (blk_y bi - blk_y bj)\<^sup>2)))"
    by (simp add: block_distance_def)
  also have "\<dots> = (4096 < real_of_int ((blk_x bi - blk_x bj)\<^sup>2 + (blk_y bi - blk_y bj)\<^sup>2))"
    by (rule real_sqrt_less_iff)
  also have "\<dots> = (4096 < (blk_x bi - blk_x bj)\<^sup>2 + (blk_y bi - blk_y bj)\<^sup>2)"
    by linarith
  finally show ?thesis .
qed

subsection \<open>The comparison loops and the block grid\<close>

lemma compare_step_pair [simp]:
  "compare_step blocks regions (i, j) = compare_pair (blocks ! i) (blocks ! j) regions"
  by (simp add: compare_step_def)

lemma compare_j_loop_foldl:
  "compare_j_loop blocks i j regions =
     foldl (compare_step blocks) regions (map (\<lambda>j. (i, j)) [j..<length blocks])"
proof (induction blocks i j regions rule: compare_j_loop.induct)
  case (1 blocks i j regions)
  show ?case
  proof (cases "j < length blocks")
    case True
    then have "[j..<length blocks] = j # [j + 1..<length blocks]"
      by (simp add: upt_conv_Cons)
    with "1.IH" [OF True] True show ?thesis
      by (subst compare_j_loop.simps) simp
  next
    case False
    then show ?thesis by (subst compare_j_loop.simps) simp
  qed
qed

lemma compare_i_loop_foldl:
  "compare_i_loop blocks i regions =
     foldl (compare_step blocks) regions
       (concat (map (\<lambda>i. map (\<lambda>j. (i, j)) [i + 1..<length blocks]) [i..<length blocks]))"
proof (induction blocks i regions rule: compare_i_loop.induct)
  case (1 blocks i regions)
  show ?case
  proof (cases "i < length blocks")
    case True
    then have "[i..<length blocks] = i # [i + 1..<length blocks]"
      by (simp add: upt_conv_Cons)
    with "1.IH" [OF True] True show ?thesis
      by (subst compare_i_loop.simps) (simp add: compare_j_loop_foldl)
  next
    case False
    then show ?thesis by (subst compare_i_loop.simps) simp
  qed
qed

lemma compare_loops_pairs:
  "compare_i_loop blocks 0 [] =
     foldl (compare_step blocks) [] (compared_pairs (length blocks))"
  by (simp add: compare_i_loop_foldl compared_pairs_def)

lemma compared_pairs_4: "compared_pairs 4 = [(0,1),(0,2),(0,3),(1,2),(1,3),(2,3)]"
  by (simp add: compared_pairs_def upt_rec)

lemma extract_empty:
  assumes "img_width img \<le> 32 \<or> img_height img \<le> 32" "0 \<le> y"
  shows "extract_y_loop img y [] = []"
  using assms
proof (induction img y "[] :: block list" rule: extract_y_loop.induct)
  case (1 img y)
  show ?case
  proof (cases "y < int (img_height img) - 32")
    case True
    with "1.prems" have w: "\<not> 0 < int (img_width img) - 32" by auto
    then have "extract_x_loop img y 0 [] = []" by (subst extract_x_loop.simps) simp
    moreover have "0 \<le> y + 32" using "1.prems" by simp
    ultimately show ?thesis using "1.hyps" [OF True _ "1.prems"(1)] True
      by (subst extract_y_loop.simps) simp
  next
    case False
    then show ?thesis by (subst extract_y_loop.simps) simp
  qed
qed

lemma detectCopyMove_small:
  assumes "img_width img \<le> 32 \<or> img_height img \<le> 32"
  shows "detectCopyMove img = Inr \<lparr>cm_regions = [], cm_confidence = Num 0\<rparr>"
  using extract_empty [OF assms, of 0]
  by (simp add: detectCopyMove_def compare_i_loop.simps overallConfidence_def)


lemma extract_x_loop_grid:
  "extract_x_loop img y (32 * int k) blocks =
     blocks @ map (\<lambda>i. extract_block img (32 * int i) y) [k..<(img_width img - 1) div 32]"
proof (induction "(img_width img - 1) div 32 - k" arbitrary: k blocks)
  case 0
  then have "\<not> 32 * int k < int (img_width img) - 32" by linarith
  with 0 show ?case by (subst extract_x_loop.simps) simp
next
  case (Suc n)
  then have k: "k < (img_width img - 1) div 32" by simp
  then have c: "32 * int k < int (img_width img) - 32" by linarith
  have n: "n = (img_width img - 1) div 32 - (k + 1)" using Suc.hyps(2) by simp
  have e: "32 * int k + 32 = 32 * int (k + 1)" by simp
  have step: "extract_x_loop img y (32 * int k + 32) (blocks @ [extract_block img (32 * int k) y]) =
      (blocks @ [extract_block img (32 * int k) y]) @
      map (\<lambda>i. extract_block img (32 * int i) y) [k + 1..<(img_width img - 1) div 32]"
    unfolding e by (rule Suc.hyps(1) [OF n])
  from c k step show ?case
    by (subst extract_x_loop.simps) (simp add: upt_conv_Cons)
qed

lemma extract_y_loop_grid:
  "extract_y_loop img (32 * int k) blocks =
     blocks @ concat (map (\<lambda>j. map (\<lambda>i. extract_block img (32 * int i) (32 * int j))
                                 [0..<(img_width img - 1) div 32])
                          [k..<(img_height img - 1) div 32])"
proof (induction "(img_height img - 1) div 32 - k" arbitrary: k blocks)
  case 0
  then have "\<not> 32 * int k < int (img_height img) - 32" by linarith
  with 0 show ?case by (subst extract_y_loop.simps) simp
next
  case (Suc n)
  then have k: "k < (img_height img - 1) div 32" by simp
  then have c: "32 * int k < int (img_height img) - 32" by linarith
  have n: "n = (img_height img - 1) div 32 - (k + 1)" using Suc.hyps(2) by simp
  have e: "32 * int k + 32 = 32 * int (k + 1)" by simp
  have x: "extract_x_loop img (32 * int k) 0 blocks =
      blocks @ map (\<lambda>i. extract_block img (32 * int i) (32 * int k)) [0..<(img_width img - 1) div 32]"
    using extract_x_loop_grid [of img "32 * int k" 0 blocks] by simp
  have step: "extract_y_loop img (32 * int k + 32) (extract_x_loop img (32 * int k) 0 blocks) =
      extract_x_loop img (32 * int k) 0 blocks @
      concat (map (\<lambda>j. map (\<lambda>i. extract_block img (32 * int i) (32 * int j))
                                 [0..<(img_width img - 1) div 32])
                          [k + 1..<(img_height img - 1) div 32])"
    unfolding e by (rule Suc.hyps(1) [OF n])
  from c k step show ?case
    by (subst extract_y_loop.simps) (simp add: upt_conv_Cons x)
qed

lemma extract_blocks_grid:
  "extract_y_loop img 0 [] =
     concat (map (\<lambda>j. map (\<lambda>i. extract_block img (32 * int i) (32 * int j))
                         [0..<(img_width img - 1) div 32])
                  [0..<(img_height img - 1) div 32])"
  using extract_y_loop_grid [of img 0 "[]"] by simp

lemma block_origins_grid:
  "block_origins img = fitting_origins (img_width img - 1) (img_height img - 1)"
  by (simp add: block_origins_def extract_blocks_grid fitting_origins_def map_concat comp_def
      extract_block_fields)

subsection \<open>A strip of one colour\<close>

text \<open>
  An image of 129 by 33 pixels of one colour has four blocks, at \<open>x = 0, 32, 64, 96\<close>
  and \<open>y = 0\<close>, all with the same samples. Only the first and the last are more than
  64 pixels apart.
\<close>

lemma strip_blocks:
  "extract_y_loop (uniform_image 129 33 px) 0 [] =
     [extract_block (uniform_image 129 33 px) 0 0, extract_block (uniform_image 129 33 px) 32 0,
      extract_block (uniform_image 129 33 px) 64 0, extract_block (uniform_image 129 33 px) 96 0]"
  by (simp add: extract_blocks_grid upt_rec)


lemma strip_block_data:
  assumes "length px = 4" "x \<in> {0, 32, 64, 96}"
  shows "blk_data (extract_block (uniform_image 129 33 px) x 0) =
         blk_data (extract_block (uniform_image 129 33 px) 0 0)"
  using assms(2) by (intro extract_block_uniform [OF assms(1)]) auto

lemma strip_detect:
  assumes "length px = 4"
  shows "detectCopyMove (uniform_image 129 33 px) =
     Inr \<lparr>cm_regions =
            [\<lparr>reg_x = 0, reg_y = 0, reg_width = 32, reg_height = 32, reg_confidence = Num 1\<rparr>,
             \<lparr>reg_x = 96, reg_y = 0, reg_width = 32, reg_height = 32, reg_confidence = Num 1\<rparr>],
          cm_confidence = Num 1\<rparr>"
proof -
  let ?U = "uniform_image 129 33 px"
  let ?d = "blk_data (extract_block ?U 0 0)"
  have d: "blk_data (extract_block ?U 32 0) = ?d" "blk_data (extract_block ?U 64 0) = ?d"
    "blk_data (extract_block ?U 96 0) = ?d"
    by (rule strip_block_data [OF assms], simp)+
  have len: "length ?d = 4096" by (rule extract_block_fields)
  note sim = same_block_similar [OF len]
  have near: "compare_pair (extract_block ?U x 0) (extract_block ?U x' 0) rs = rs"
    if "x \<in> {0, 32, 64, 96}" "x' \<in> {0, 32, 64, 96}" "(x - x')\<^sup>2 \<le> 4096" for x x' rs
    using that by (simp add: compare_pair_def block_distance_gt_iff extract_block_fields)
  have far: "compare_pair (extract_block ?U 0 0) (extract_block ?U 96 0) [] =
      [\<lparr>reg_x = 0, reg_y = 0, reg_width = 32, reg_height = 32, reg_confidence = Num 1\<rparr>,
       \<lparr>reg_x = 96, reg_y = 0, reg_width = 32, reg_height = 32, reg_confidence = Num 1\<rparr>]"
    by (simp add: compare_pair_def block_distance_gt_iff extract_block_fields d sim Let_def)
  have regions: "compare_i_loop (extract_y_loop ?U 0 []) 0 [] =
      [\<lparr>reg_x = 0, reg_y = 0, reg_width = 32, reg_height = 32, reg_confidence = Num 1\<rparr>,
       \<lparr>reg_x = 96, reg_y = 0, reg_width = 32, reg_height = 32, reg_confidence = Num 1\<rparr>]"
  proof -
    have cp: "compared_pairs (Suc (Suc (Suc (Suc 0)))) =
        [(0, 1), (0, 2), (0, 3), (1, 2), (1, 3), (2, 3)]"
      using compared_pairs_4 by (simp add: numeral_eq_Suc)
    show ?thesis
      unfolding compare_loops_pairs strip_blocks
      by (simp add: cp near far)
  qed
  show ?thesis
    by (simp add: detectCopyMove_def regions overallConfidence_def sum_confidence_def)
qed

subsection \<open>The confidence of a match\<close>

lemma mean_above_floor:
  assumes "rs \<noteq> []" "\<forall>r\<in>set rs. \<exists>c. reg_confidence r = Num c \<and> 250 / 255 < c \<and> c \<le> 1"
  shows "\<exists>v. overallConfidence rs = Num v \<and> 250 / 255 < v \<and> v \<le> 1"
proof -
  define lo where "lo = Min ((\<lambda>r. case reg_confidence r of Num c \<Rightarrow> c | _ \<Rightarrow> 1) ` set rs)"
  have lo_in: "lo \<in> (\<lambda>r. case reg_confidence r of Num c \<Rightarrow> c | _ \<Rightarrow> 1) ` set rs"
    unfolding lo_def using assms(1) by (intro Min_in) simp_all
  then obtain r0 where r0: "r0 \<in> set rs" "lo = (case reg_confidence r0 of Num c \<Rightarrow> c | _ \<Rightarrow> 1)"
    by auto
  with assms(2) have lo_gt: "250 / 255 < lo" by force
  have "\<forall>r\<in>set rs. \<exists>c. reg_confidence r = Num c \<and> lo \<le> c \<and> c \<le> 1"
  proof
    fix r assume r: "r \<in> set rs"
    with assms(2) obtain c where c: "reg_confidence r = Num c" "c \<le> 1" by blast
    have "lo \<le> (case reg_confidence r of Num c \<Rightarrow> c | _ \<Rightarrow> 1)"
      unfolding lo_def using r by (intro Min_le) simp_all
    with c show "\<exists>c. reg_confidence r = Num c \<and> lo \<le> c \<and> c \<le> 1" by simp
  qed
  from mean_confidence_bounds [OF assms(1) this] obtain v where
    "js_div (sum_confidence rs) (Num (real (length rs))) = Num v" "lo \<le> v" "v \<le> 1"
    by blast
  with lo_gt assms(1) show ?thesis by (auto simp: overallConfidence_def)
qed

text \<open>
  Claim C9: every region \<open>detectCopyMove\<close> emits has a confidence above
  \<open>1 - threshold / 255 = 250 / 255\<close>, since a pair qualifies only when its average
  difference is below the threshold 5 and the confidence is \<open>max(0, 1 - avgDiff / 255)\<close>
  of the same difference; so the overall confidence is 0 or above \<open>250 / 255\<close>.
\<close>

theorem copy_move_confidence_floor:
  "\<exists>res. detectCopyMove imageData = Inr res \<and>
     (\<forall>r\<in>set (cm_regions res). above_similarity_floor (reg_confidence r)) \<and>
     (cm_confidence res = Num 0 \<or> above_similarity_floor (cm_confidence res))"
proof -
  from detectCopyMove_regions_ok [of imageData] obtain res where
    res: "detectCopyMove imageData = Inr res"
    "\<forall>r\<in>set (cm_regions res). cm_region_ok (img_width imageData) (img_height imageData) r"
    by blast
  then have c: "\<forall>r\<in>set (cm_regions res). \<exists>c. reg_confidence r = Num c \<and> 250 / 255 < c \<and> c \<le> 1"
    by (simp add: cm_region_ok_def)
  then have a: "\<forall>r\<in>set (cm_regions res). above_similarity_floor (reg_confidence r)"
    by (force simp: above_similarity_floor_def)
  from res(1) have conf: "cm_confidence res = overallConfidence (cm_regions res)"
    by (auto simp: detectCopyMove_def Let_def)
  have "cm_confidence res = Num 0 \<or> above_similarity_floor (cm_confidence res)"
  proof (cases "cm_regions res = []")
    case True
    with conf show ?thesis by (simp add: overallConfidence_def)
  next
    case False
    from mean_above_floor [OF False c] conf show ?thesis
      by (auto simp: above_similarity_floor_def)
  qed
  with res(1) a show ?thesis by blast
qed

text \<open>The claim at the strip: two regions of confidence 1, and overall confidence 1.\<close>

theorem copy_move_confidence_floor_witness:
  "\<exists>res. detectCopyMove (uniform_image 129 33 [10, 20, 30, 255]) = Inr res \<and>
     length (cm_regions res) = 2 \<and>
     list_all (\<lambda>r. above_similarity_floor (reg_confidence r)) (cm_regions res) \<and>
     above_similarity_floor (cm_confidence res)"
  using copy_move_confidence_floor [of "uniform_image 129 33 [10, 20, 30, 255]"]
    strip_detect [of "[10, 20, 30, 255]"]
  by (auto simp: list_all_iff above_similarity_floor_def)

section \<open>Regions and the buffer\<close>

lemma cm_region_ok_within:
  assumes "cm_region_ok W H r"
  shows "within_buffer W H r \<and> in_unit (reg_confidence r)"
  using assms by (auto simp: cm_region_ok_def within_buffer_def in_unit_def)

lemma grid_cell_padded:
  assumes "0 \<le> x" "x < int W" "16 dvd x"
  shows "x + 16 \<le> 16 * \<lceil>real W / 16\<rceil>"
proof -
  from assms(3) obtain k where k: "x = 16 * k" by (auto simp: dvd_def)
  with assms(2) have "real_of_int k < real W / 16" by simp
  also have "\<dots> \<le> of_int \<lceil>real W / 16\<rceil>" by (rule le_of_int_ceiling)
  finally have "k < \<lceil>real W / 16\<rceil>" by simp
  with k show ?thesis by simp
qed

lemma ela_region_ok_within:
  assumes "ela_region_ok (int W) (int H) r"
  shows "within_padded_buffer W H r \<and> in_unit (reg_confidence r)"
  using assms grid_cell_padded [of "reg_x r" W] grid_cell_padded [of "reg_y r" H]
  by (auto simp: ela_region_ok_def within_padded_buffer_def in_unit_def)

lemma ela_translucent_pixel:
  "performErrorLevelAnalysis (fixed_canvas translucent_pixel_jpeg) translucent_pixel quality =
     Inr \<lparr>ela_regions = [\<lparr>reg_x = 0, reg_y = 0, reg_width = 16, reg_height = 16,
                             reg_confidence = Num 1\<rparr>],
          heatmap = [[Num 1]]\<rparr>"
proof -
  have "\<lceil>(1::real) / 16\<rceil> = 1" by (rule ceiling_unique) simp_all
  then show ?thesis
    by (simp add: performErrorLevelAnalysis_def fixed_canvas_def translucent_pixel_def
        translucent_pixel_jpeg_def ela_blocks_def ela_y_loop.simps ela_x_loop.simps ela_cell_def
        ela_by_loop.simps ela_bx_loop.simps pixel_diff_def sample_def heatmap_store_def
        array_set_def ela_push_def Let_def)
qed

text \<open>
  Claim C1, as stated: every region of either detector lies in the buffer. It fails
  for the error-level analysis: the pixel loops of a cell stop at the image's edge,
  but the region pushed for the cell has \<^verbatim>\<open>width: blockSize, height: blockSize\<close>
  whatever the cell's extent. For the translucent pixel, an image of one pixel, the
  only cell is flagged and its region of 16 by 16 pixels reaches past the buffer.
\<close>

theorem ela_edge_region_exceeds_buffer:
  "performErrorLevelAnalysis (fixed_canvas translucent_pixel_jpeg) translucent_pixel (95 / 100) =
     Inr \<lparr>ela_regions = [\<lparr>reg_x = 0, reg_y = 0, reg_width = 16, reg_height = 16,
                             reg_confidence = Num 1\<rparr>],
          heatmap = [[Num 1]]\<rparr>
   \<and> \<not> within_buffer (img_width translucent_pixel) (img_height translucent_pixel)
         \<lparr>reg_x = 0, reg_y = 0, reg_width = 16, reg_height = 16, reg_confidence = Num 1\<rparr>"
proof -
  have "img_width translucent_pixel = 1" "img_height translucent_pixel = 1"
    by (simp_all add: translucent_pixel_def)
  with ela_translucent_pixel [of "95 / 100"] show ?thesis by (simp add: within_buffer_def)
qed

text \<open>
  Claim C1, amended: whenever the canvas calls return, both detectors return;
  every region of \<open>detectCopyMove\<close> satisfies \<open>0 \<le> x\<close>, \<open>0 \<le> y\<close>,
  \<open>x + width \<le> imageWidth\<close>, \<open>y + height \<le> imageHeight\<close> and
  \<open>0 \<le> confidence \<le> 1\<close>; every region of \<open>performErrorLevelAnalysis\<close> has its origin
  in the buffer, \<open>0 \<le> x < imageWidth\<close> and \<open>0 \<le> y < imageHeight\<close>, the full extent
  \<open>width = height = 16\<close> also for a clipped edge cell, so that
  \<open>x + width \<le> 16 * ceil(imageWidth / 16)\<close> and
  \<open>y + height \<le> 16 * ceil(imageHeight / 16)\<close>, and \<open>0 \<le> confidence \<le> 1\<close>.
\<close>

theorem emitted_regions_bounds:
  assumes "canvas imageData quality = Inr (originalData, compressedData)"
  shows "\<exists>cm ela. detectCopyMove imageData = Inr cm \<and>
           performErrorLevelAnalysis canvas imageData quality = Inr ela \<and>
           (\<forall>r\<in>set (cm_regions cm).
              within_buffer (img_width imageData) (img_height imageData) r \<and>
              in_unit (reg_confidence r)) \<and>
           (\<forall>r\<in>set (ela_regions ela).
              within_padded_buffer (img_width imageData) (img_height imageData) r \<and>
              in_unit (reg_confidence r))"
proof -
  from detectCopyMove_regions_ok [of imageData] obtain cm where
    cm: "detectCopyMove imageData = Inr cm"
    "\<forall>r\<in>set (cm_regions cm). cm_region_ok (img_width imageData) (img_height imageData) r"
    by blast
  from ela_blocks_inv [of "img_width imageData" "img_height imageData"
      originalData compressedData] assms
  obtain ela where
    ela: "performErrorLevelAnalysis canvas imageData quality = Inr ela"
    "\<forall>r\<in>set (ela_regions ela).
       ela_region_ok (int (img_width imageData)) (int (img_height imageData)) r"
    by (auto simp: performErrorLevelAnalysis_def)
  from cm ela show ?thesis
    by (auto dest: cm_region_ok_within ela_region_ok_within)
qed

text \<open>
  The amended claim at two inputs, one for each detector to emit regions: the strip
  with a lossless canvas (two regions of the copy-move detector), and the translucent
  pixel (one region of the error-level analysis).
\<close>

theorem emitted_regions_bounds_witness:
  "(\<exists>cm ela. detectCopyMove (uniform_image 129 33 [10, 20, 30, 255]) = Inr cm \<and>
      performErrorLevelAnalysis lossless_canvas (uniform_image 129 33 [10, 20, 30, 255]) (95 / 100) = Inr ela \<and>
      length (cm_regions cm) = 2 \<and>
      list_all (\<lambda>r. within_buffer 129 33 r \<and> in_unit (reg_confidence r)) (cm_regions cm) \<and>
      list_all (\<lambda>r. within_padded_buffer 129 33 r \<and> in_unit (reg_confidence r)) (ela_regions ela))
   \<and> (\<exists>cm ela. detectCopyMove translucent_pixel = Inr cm \<and>
      performErrorLevelAnalysis (fixed_canvas translucent_pixel_jpeg) translucent_pixel (95 / 100) = Inr ela \<and>
      length (ela_regions ela) = 1 \<and>
      list_all (\<lambda>r. within_buffer 1 1 r \<and> in_unit (reg_confidence r)) (cm_regions cm) \<and>
      list_all (\<lambda>r. within_padded_buffer 1 1 r \<and> in_unit (reg_confidence r)) (ela_regions ela))"
proof -
  have c: "img_width translucent_pixel = 1" "img_height translucent_pixel = 1"
    by (simp_all add: translucent_pixel_def)
  show ?thesis
    using emitted_regions_bounds [of lossless_canvas "uniform_image 129 33 [10, 20, 30, 255]"
        "95 / 100" "img_data (uniform_image 129 33 [10, 20, 30, 255])"
        "img_data (uniform_image 129 33 [10, 20, 30, 255])"]
      emitted_regions_bounds [of "fixed_canvas translucent_pixel_jpeg" translucent_pixel
        "95 / 100" "img_data translucent_pixel" translucent_pixel_jpeg]
      strip_detect [of "[10, 20, 30, 255]"] ela_translucent_pixel [of "95 / 100"]
    by (auto simp: list_all_iff c lossless_canvas_def fixed_canvas_def)
qed

section \<open>Images without pixels\<close>

lemma ela_y_loop_no_columns:
  "ela_y_loop 0 h od cd y st = Inr st"
proof (induction "0::int" h od cd y st rule: ela_y_loop.induct)
  case (1 h od cd y st)
  have x: "ela_x_loop 0 h od cd y 0 st = Inr st"
    by (cases st) (simp add: ela_x_loop.simps)
  show ?case
  proof (cases "y < h")
    case True
    with "1.hyps" [OF True x] x show ?thesis by (subst ela_y_loop.simps) simp
  next
    case False
    then show ?thesis by (subst ela_y_loop.simps) simp
  qed
qed

lemma ela_blocks_empty:
  assumes "W = 0 \<or> H = 0"
  shows "ela_blocks W H od cd =
     Inr \<lparr>ela_regions = [],
          heatmap = replicate (nat \<lceil>real H / 16\<rceil>) (replicate (nat \<lceil>real W / 16\<rceil>) (Num 0))\<rparr>"
proof (cases "W = 0")
  case True
  then show ?thesis by (simp add: ela_blocks_def ela_y_loop_no_columns)
next
  case False
  with assms have "H = 0" by simp
  then show ?thesis by (simp add: ela_blocks_def ela_y_loop.simps)
qed

text \<open>
  Claim C5, as stated: for a buffer of zero width or height both functions fail with
  an \<open>EmptyImage\<close> error before any block is formed. The code has no such check and
  no such error: \<open>detectCopyMove\<close> on the image of 0 by 0 pixels is fulfilled, with
  no region and confidence 0.
\<close>

theorem copy_move_accepts_empty_image:
  "detectCopyMove \<lparr>img_width = 0, img_height = 0, img_data = []\<rparr> =
     Inr \<lparr>cm_regions = [], cm_confidence = Num 0\<rparr>"
  by (simp add: detectCopyMove_small)

text \<open>
  Claim C5, amended: for every buffer of zero width or zero height \<open>detectCopyMove\<close>
  returns normally, with no region and confidence 0, and \<open>performErrorLevelAnalysis\<close>
  has no check of its own: it fails when, and as, the canvas calls of lines 18 to 37
  fail (in a browser \<^verbatim>\<open>getImageData\<close> throws for a rectangle without pixels), and
  where they return it returns no region and a heatmap of \<open>ceil(height / 16)\<close> rows of
  \<open>ceil(width / 16)\<close> zeros, which has no cell.
\<close>

theorem empty_image_accepted:
  assumes "img_width imageData = 0 \<or> img_height imageData = 0"
  shows "detectCopyMove imageData = Inr \<lparr>cm_regions = [], cm_confidence = Num 0\<rparr> \<and>
         performErrorLevelAnalysis canvas imageData quality =
           (case canvas imageData quality of
              Inl e \<Rightarrow> Inl e
            | Inr samples \<Rightarrow>
                Inr \<lparr>ela_regions = [],
                     heatmap = replicate (nat \<lceil>real (img_height imageData) / 16\<rceil>)
                                 (replicate (nat \<lceil>real (img_width imageData) / 16\<rceil>) (Num 0))\<rparr>)"
proof -
  from assms have "img_width imageData \<le> 32 \<or> img_height imageData \<le> 32" by auto
  then have "detectCopyMove imageData = Inr \<lparr>cm_regions = [], cm_confidence = Num 0\<rparr>"
    by (rule detectCopyMove_small)
  moreover have "ela_blocks (img_width imageData) (img_height imageData) od cd =
      Inr \<lparr>ela_regions = [],
           heatmap = replicate (nat \<lceil>real (img_height imageData) / 16\<rceil>)
                       (replicate (nat \<lceil>real (img_width imageData) / 16\<rceil>) (Num 0))\<rparr>" for od cd
    using assms by (rule ela_blocks_empty)
  ultimately show ?thesis
    by (simp add: performErrorLevelAnalysis_def split: sum.splits prod.splits)
qed

text \<open>The amended claim at an image of width 0 and height 40: three empty rows.\<close>

theorem empty_image_accepted_witness:
  "detectCopyMove \<lparr>img_width = 0, img_height = 40, img_data = []\<rparr> =
     Inr \<lparr>cm_regions = [], cm_confidence = Num 0\<rparr> \<and>
   performErrorLevelAnalysis lossless_canvas \<lparr>img_width = 0, img_height = 40, img_data = []\<rparr> (95 / 100) =
     Inr \<lparr>ela_regions = [], heatmap = [[], [], []]\<rparr>"
proof -
  have "\<lceil>(5::real) / 2\<rceil> = 3" by (rule ceiling_unique) simp_all
  with empty_image_accepted [of "\<lparr>img_width = 0, img_height = 40, img_data = []\<rparr>"
      lossless_canvas "95 / 100"]
  show ?thesis by (simp add: lossless_canvas_def numeral_eq_Suc)
qed

section \<open>The image of 64 by 64 pixels\<close>

lemma blocks_64:
  assumes "img_width imageData = 64" "img_height imageData = 64"
  shows "extract_y_loop imageData 0 [] = [extract_block imageData 0 0]"
  using assms by (simp add: extract_blocks_grid upt_rec)

lemma origin_distance_bound:
  assumes "blk_x bi \<in> {0, 32}" "blk_y bi \<in> {0, 32}" "blk_x bj \<in> {0, 32}" "blk_y bj \<in> {0, 32}"
  shows "block_distance bi bj \<le> 32 * sqrt 2"
proof -
  have "(blk_x bi - blk_x bj)\<^sup>2 + (blk_y bi - blk_y bj)\<^sup>2 \<le> 2048"
    using assms by auto
  then have "real_of_int ((blk_x bi - blk_x bj)\<^sup>2 + (blk_y bi - blk_y bj)\<^sup>2) \<le> 2048" by linarith
  then have "block_distance bi bj \<le> sqrt 2048"
    unfolding block_distance_def by (rule real_sqrt_le_mono)
  also have "sqrt 2048 = sqrt (32\<^sup>2 * 2)" by simp
  also have "\<dots> = 32 * sqrt 2" by (simp only: real_sqrt_mult real_sqrt_abs)
  finally show ?thesis .
qed

lemma sqrt2_lt_2: "32 * sqrt 2 < 32 * 2"
proof -
  have "sqrt 2 < sqrt 4" by (simp only: real_sqrt_less_iff)
  also have "sqrt 4 = 2" by (rule real_sqrt_unique) simp_all
  finally show ?thesis by simp
qed

text \<open>
  Claim C4, as stated: on a uniform image of 64 by 64 pixels the detector extracts
  exactly 2 blocks and compares exactly one pair. It extracts one block, at the
  origin, and compares no pair.
\<close>

theorem copy_move_64_single_block:
  "block_origins (uniform_image 64 64 [7, 7, 7, 255]) = [(0, 0)] \<and>
   compared_pairs (length (block_origins (uniform_image 64 64 [7, 7, 7, 255]))) = []"
  by (simp add: block_origins_grid fitting_origins_def compared_pairs_def upt_rec)

text \<open>
  Claim C4, amended: on an image of 64 by 64 pixels, uniform or not, every block
  \<open>detectCopyMove\<close> extracts has its origin in \<open>{0, 32} \<times> {0, 32}\<close>; two blocks with
  origins there are at most \<open>blockSize * sqrt 2\<close> apart, which is less than the
  separation \<open>2 * blockSize\<close> a match needs; the detector emits no region and
  confidence 0.
\<close>

theorem copy_move_64_no_match:
  assumes "img_width imageData = 64" "img_height imageData = 64"
  shows "set (block_origins imageData) \<subseteq> {0, 32} \<times> {0, 32} \<and>
         (\<forall>bi bj. blk_x bi \<in> {0, 32} \<and> blk_y bi \<in> {0, 32} \<and>
                  blk_x bj \<in> {0, 32} \<and> blk_y bj \<in> {0, 32} \<longrightarrow>
                  block_distance bi bj \<le> 32 * sqrt 2) \<and>
         32 * sqrt 2 < 32 * 2 \<and>
         detectCopyMove imageData = Inr \<lparr>cm_regions = [], cm_confidence = Num 0\<rparr>"
proof -
  have "block_origins imageData = [(0, 0)]"
    using assms by (simp add: block_origins_def blocks_64 extract_block_fields)
  moreover have "detectCopyMove imageData = Inr \<lparr>cm_regions = [], cm_confidence = Num 0\<rparr>"
    using assms
    by (simp add: detectCopyMove_def blocks_64 compare_loops_pairs compared_pairs_def
        overallConfidence_def)
  ultimately show ?thesis
    using origin_distance_bound sqrt2_lt_2 by auto
qed

text \<open>
  The amended claim at the uniform image, and at the two origins \<open>(0, 0)\<close> and
  \<open>(32, 32)\<close>, which are exactly \<open>blockSize * sqrt 2\<close> apart.
\<close>

theorem copy_move_64_no_match_witness:
  "set (block_origins (uniform_image 64 64 [7, 7, 7, 255])) \<subseteq> {0, 32} \<times> {0, 32} \<and>
   block_distance \<lparr>blk_data = [], blk_x = 0, blk_y = 0\<rparr> \<lparr>blk_data = [], blk_x = 32, blk_y = 32\<rparr>
     \<le> 32 * sqrt 2 \<and>
   block_distance \<lparr>blk_data = [], blk_x = 0, blk_y = 0\<rparr> \<lparr>blk_data = [], blk_x = 32, blk_y = 32\<rparr>
     = 32 * sqrt 2 \<and>
   detectCopyMove (uniform_image 64 64 [7, 7, 7, 255]) =
     Inr \<lparr>cm_regions = [], cm_confidence = Num 0\<rparr>"
proof -
  have "sqrt 2048 = sqrt (32\<^sup>2 * 2)" by simp
  also have "\<dots> = 32 * sqrt 2" by (simp only: real_sqrt_mult real_sqrt_abs)
  finally have d: "block_distance \<lparr>blk_data = [], blk_x = 0, blk_y = 0\<rparr>
      \<lparr>blk_data = [], blk_x = 32, blk_y = 32\<rparr> = 32 * sqrt 2"
    by (simp add: block_distance_def)
  from copy_move_64_no_match [of "uniform_image 64 64 [7, 7, 7, 255]"] d
  show ?thesis by simp
qed

section \<open>Blocks flush with the edge\<close>

text \<open>
  Claim C2: \<open>detectCopyMove\<close> extracts exactly the grid blocks that fit in the image,
  \<open>x + 32 \<le> width\<close> and \<open>y + 32 \<le> height\<close>. By \<open>block_origins_grid\<close> the loops, whose
  bounds are \<^verbatim>\<open>x < width - blockSize\<close> and \<^verbatim>\<open>y < height - blockSize\<close>, extract the
  blocks that fit in the image without its last column and last row: a block flush
  with the right or the bottom edge is left out. An image of 32 by 32 pixels holds one
  block and none is extracted; an image of 64 by 64 pixels holds four and one is
  extracted.
\<close>

theorem copy_move_drops_flush_blocks:
  "block_origins (uniform_image 32 32 [7, 7, 7, 255]) = [] \<and>
   fitting_origins 32 32 = [(0, 0)] \<and>
   block_origins (uniform_image 64 64 [7, 7, 7, 255]) = [(0, 0)] \<and>
   fitting_origins 64 64 = [(0, 0), (32, 0), (0, 32), (32, 32)]"
  by (simp add: block_origins_grid fitting_origins_def upt_rec)

end
